theory Spec2Isabelle
  imports Main "HOL-Library.Sublist"
begin

text \<open>
  A model of the library metaflow: exception.ts (\<open>Try\<close>, \<open>TryChain\<close>, \<open>isErrorOf\<close>) and
  do.ts (\<open>Do\<close>, \<open>Thunk\<close>, \<open>AsyncThunk\<close>). The definitions follow the source function by
  function; the properties follow them, those of exception.ts first.
\<close>

section \<open>JavaScript values\<close>

text \<open>
  The library is TypeScript and works on arbitrary JavaScript values. The values the
  library inspects are modelled by \<open>val\<close>:
  \<^item> primitives (numbers are the integer-valued ones only);
  \<^item> ordinary objects without an own property \<open>then\<close>, represented by their
    \<open>[[Prototype]]\<close> and their \<open>message\<close> (which is all that \<open>instanceof\<close> and an
    \<open>Error\<close> need);
  \<^item> \<open>VThenable t\<close>: a plain object \<open>{ then(onFulfilled, onRejected) { ... } }\<close> that is
    no promise; its method calls \<open>onFulfilled\<close> with a value, or \<open>onRejected\<close> with a
    reason, or neither, and returns \<open>undefined\<close>;
  \<^item> \<open>VPromise p\<close>: a native promise, given by how it was made: \<open>Resolved v\<close> is a
    promise whose resolving function was called with \<open>v\<close> (\<open>Promise.resolve(v)\<close> for a
    \<open>v\<close> that is no promise, \<open>new Promise((r) => r(v))\<close>, the result of an \<open>async\<close>
    function that returns \<open>v\<close> without suspending); \<open>Rejected e\<close> is \<open>Promise.reject(e)\<close>;
    \<open>Then p v\<close> is \<open>p.then(() => v)\<close>; \<open>Never\<close> is \<open>new Promise(() => {})\<close>.
  A promise a callback hands over was made, with all it is made of, in the turn in which
  the callback hands it over. \<open>Resolved v\<close> is fulfilled from the start when \<open>v\<close> is no
  thenable, and pending otherwise; \<open>Then p v\<close> is pending when it is made.

  A prototype object is identified by its name and by the chain of its ancestors up to
  \<open>Object.prototype\<close>.
\<close>

datatype proto = ObjectPrototype | Derived string proto

datatype val =
    VUndefined
  | VNull
  | VBool bool
  | VNum int
  | VStr string
  | VObject proto string
  | VThenable own_then
  | VPromise promise
and own_then =
    Calls_onFulfilled val
  | Calls_onRejected val
  | Calls_neither
and promise =
    Resolved val
  | Rejected val
  | Then promise val
  | Never

definition Error_prototype :: proto where
  "Error_prototype = Derived ''Error'' ObjectPrototype"

definition TypeError_prototype :: proto where
  "TypeError_prototype = Derived ''TypeError'' Error_prototype"

definition Promise_prototype :: proto where
  "Promise_prototype = Derived ''Promise'' ObjectPrototype"

text \<open>\<open>new Error(message)\<close> and the \<open>TypeError\<close> the host raises.\<close>

definition new_Error :: "string \<Rightarrow> val" where
  "new_Error message = VObject Error_prototype message"

definition new_TypeError :: "string \<Rightarrow> val" where
  "new_TypeError message = VObject TypeError_prototype message"

text \<open>\<open>ToBoolean\<close>: what \<open>if (x)\<close> tests.\<close>

fun truthy :: "val \<Rightarrow> bool" where
  "truthy VUndefined = False"
| "truthy VNull = False"
| "truthy (VBool b) = b"
| "truthy (VNum n) = (n \<noteq> 0)"
| "truthy (VStr s) = (s \<noteq> [])"
| "truthy (VObject p m) = True"
| "truthy (VThenable t) = True"
| "truthy (VPromise p) = True"

text \<open>
  \<open>parent p\<close> is the \<open>[[Prototype]]\<close> of the prototype object \<open>p\<close> (\<open>None\<close> is
  \<open>null\<close>, above \<open>Object.prototype\<close>); \<open>ancestors p\<close> are the objects strictly above
  \<open>p\<close> on its prototype chain.
\<close>

fun parent :: "proto \<Rightarrow> proto option" where
  "parent ObjectPrototype = None"
| "parent (Derived name p) = Some p"

fun ancestors :: "proto \<Rightarrow> proto list" where
  "ancestors ObjectPrototype = []"
| "ancestors (Derived name p) = p # ancestors p"

text \<open>
  The \<open>[[Prototype]]\<close> of a value: \<open>None\<close> for a primitive, which is not an object.
\<close>

fun object_proto :: "val \<Rightarrow> proto option" where
  "object_proto (VObject p m) = Some p"
| "object_proto (VThenable t) = Some ObjectPrototype"
| "object_proto (VPromise p) = Some Promise_prototype"
| "object_proto v = None"

text \<open>
  \<open>typeof x?.then === "function"\<close>: true of a promise, of an object with a method
  \<open>then\<close> of its own, and of an object that finds \<open>Promise.prototype.then\<close> on its
  prototype chain; false of \<open>undefined\<close>, \<open>null\<close> and the other primitives.
\<close>

fun thenable :: "val \<Rightarrow> bool" where
  "thenable (VPromise p) = True"
| "thenable (VThenable t) = True"
| "thenable (VObject p m) = (Promise_prototype \<in> set (p # ancestors p))"
| "thenable v = False"

text \<open>
  \<open>Object.getPrototypeOf(x)\<close> for \<open>x\<close> the value of a function's \<open>prototype\<close>
  property, where \<open>None\<close> is \<open>undefined\<close> (an arrow function has no such property):
  \<open>ToObject(undefined)\<close> raises a \<open>TypeError\<close>. In the result \<open>None\<close> is \<open>null\<close>.
\<close>

definition Object_getPrototypeOf :: "proto option \<Rightarrow> val + proto option" where
  "Object_getPrototypeOf x =
     (case x of
        None \<Rightarrow> Inl (new_TypeError ''Cannot convert undefined or null to object'')
      | Some p \<Rightarrow> Inr (parent p))"

text \<open>
  \<open>o instanceof C\<close> for a function \<open>C\<close> (\<open>OrdinaryHasInstance\<close>). \<open>chain\<close> is
  \<open>None\<close> when \<open>o\<close> is not an object, and otherwise the objects on the prototype chain
  of \<open>o\<close>; \<open>cproto\<close> is the value of \<open>C.prototype\<close>.
\<close>

definition has_instance :: "proto list option \<Rightarrow> proto option \<Rightarrow> val + bool" where
  "has_instance chain cproto =
     (case chain of
        None \<Rightarrow> Inr False
      | Some ps \<Rightarrow>
          (case cproto of
             None \<Rightarrow> Inl (new_TypeError ''Function has non-object prototype in instanceof check'')
           | Some p \<Rightarrow> Inr (p \<in> set ps)))"

definition instanceof :: "val \<Rightarrow> proto option \<Rightarrow> val + bool" where
  "instanceof e cproto =
     has_instance (map_option (\<lambda>p. p # ancestors p) (object_proto e)) cproto"

section \<open>exception.ts\<close>

subsection \<open>Result, the store of TryChain instances, computations\<close>

datatype Result = Ok val | Err val

text \<open>
  A \<open>TryChain\<close> instance is an object with the single readonly field \<open>result\<close>. Two
  instances with equal fields are still two objects, so the instances live in a store:
  a reference is an index into \<open>heap\<close>, and \<open>new TryChain(result)\<close> appends a cell.
  \<open>world\<close> is everything else a callback of the user can read and change.

  A computation takes the state and gives back the new state together with either the
  value it returns (\<open>Inr\<close>) or the value it throws (\<open>Inl\<close>).
\<close>

record 'w state =
  heap :: "Result list"
  world :: 'w

type_synonym ('w, 'a) comp = "'w state \<Rightarrow> (val + 'a) \<times> 'w state"

type_synonym ref = nat

definition new_TryChain :: "Result \<Rightarrow> 'w state \<Rightarrow> ref \<times> 'w state" where
  "new_TryChain result s = (length (heap s), s\<lparr>heap := heap s @ [result]\<rparr>)"

definition Throw :: "val \<Rightarrow> ('w, 'a) comp" where
  "Throw e s = (Inl e, s)"

definition Try :: "('w, val) comp \<Rightarrow> ('w, ref) comp" where
  "Try f s =
     (case f s of
        (Inl error, s1) \<Rightarrow> (let (c, s2) = new_TryChain (Err error) s1 in (Inr c, s2))
      | (Inr value, s1) \<Rightarrow> (let (c, s2) = new_TryChain (Ok value) s1 in (Inr c, s2)))"

subsection \<open>Error predicates\<close>

text \<open>
  The value passed as \<open>pred\<close>, as \<open>isErrorOf\<close> tells the cases apart at run time:
  \<^item> \<open>PFunction prototype call\<close>: \<open>typeof pred === "function"\<close>; \<open>prototype\<close> is the
    value of \<open>pred.prototype\<close> (\<open>None\<close> for \<open>undefined\<close>, as for every arrow function;
    otherwise a prototype object), \<open>call\<close> is what \<open>pred(e)\<close> does;
  \<^item> \<open>PArray preds\<close>: an array;
  \<^item> \<open>POther v\<close>: any other value.
\<close>

datatype 'w pred =
    PFunction "proto option" "val \<Rightarrow> ('w, val) comp"
  | PArray "'w pred list"
  | POther val

text \<open>
  \<open>pred.prototype instanceof Error || Object.getPrototypeOf(pred.prototype) !== Object.prototype\<close>
\<close>

definition isLikelyErrorConstructor :: "proto option \<Rightarrow> val + bool" where
  "isLikelyErrorConstructor prototype =
     (case has_instance (map_option ancestors prototype) (Some Error_prototype) of
        Inl x \<Rightarrow> Inl x
      | Inr True \<Rightarrow> Inr True
      | Inr False \<Rightarrow>
          (case Object_getPrototypeOf prototype of
             Inl x \<Rightarrow> Inl x
           | Inr q \<Rightarrow> Inr (q \<noteq> Some ObjectPrototype)))"

text \<open>
  \<open>isErrorOf_some e preds\<close> is \<open>preds.some((p) => isErrorOf(e, p))\<close>: in order, stopping
  at the first truthy answer, and giving a boolean.
\<close>

fun isErrorOf :: "val \<Rightarrow> 'w pred \<Rightarrow> ('w, val) comp"
  and isErrorOf_some :: "val \<Rightarrow> 'w pred list \<Rightarrow> ('w, val) comp" where
  "isErrorOf e (PFunction prototype call) s =
     (case isLikelyErrorConstructor prototype of
        Inl x \<Rightarrow> (Inl x, s)
      | Inr True \<Rightarrow>
          (case instanceof e prototype of
             Inl x \<Rightarrow> (Inl x, s)
           | Inr b \<Rightarrow> (Inr (VBool b), s))
      | Inr False \<Rightarrow> call e s)"
| "isErrorOf e (PArray preds) s = isErrorOf_some e preds s"
| "isErrorOf e (POther v) s = (Inl (new_Error ''Invalid predicate''), s)"
| "isErrorOf_some e [] s = (Inr (VBool False), s)"
| "isErrorOf_some e (p # ps) s =
     (case isErrorOf e p s of
        (Inl x, s1) \<Rightarrow> (Inl x, s1)
      | (Inr m, s1) \<Rightarrow>
          if truthy m then (Inr (VBool True), s1) else isErrorOf_some e ps s1)"

subsection \<open>TryChain\<close>

text \<open>
  \<open>this.result\<close> is \<open>heap s ! this\<close>; a reference that a program holds is one that
  \<open>new_TryChain\<close> gave out, so it lies within the store. The field is readonly, so a
  method that mentions \<open>this.result.error\<close> several times reads the same value each
  time; the model reads it once.
\<close>

definition TryChain_map :: "ref \<Rightarrow> (val \<Rightarrow> ('w, val) comp) \<Rightarrow> ('w, ref) comp" where
  "TryChain_map this f s =
     (case heap s ! this of
        Ok value \<Rightarrow>
          (case f value s of
             (Inl x, s1) \<Rightarrow> (Inl x, s1)
           | (Inr u, s1) \<Rightarrow> (let (c, s2) = new_TryChain (Ok u) s1 in (Inr c, s2)))
      | Err error \<Rightarrow> (let (c, s1) = new_TryChain (Err error) s in (Inr c, s1)))"

definition TryChain_case ::
  "ref \<Rightarrow> 'w pred \<Rightarrow> (ref \<Rightarrow> ('w, val) comp) \<Rightarrow> ('w, ref) comp" where
  "TryChain_case this pred f s =
     (case heap s ! this of
        Ok value \<Rightarrow> (Inr this, s)
      | Err error \<Rightarrow>
          (case isErrorOf error pred s of
             (Inl x, s1) \<Rightarrow> (Inl x, s1)
           | (Inr m, s1) \<Rightarrow>
               if truthy m then
                 (let (subchain, s2) = new_TryChain (Err error) s1 in
                  case f subchain s2 of
                    (Inl x, s3) \<Rightarrow> (Inl x, s3)
                  | (Inr result, s3) \<Rightarrow>
                      (let (c, s4) = new_TryChain (Ok result) s3 in (Inr c, s4)))
               else (Inr this, s1)))"

definition TryChain_pick :: "ref \<Rightarrow> 'w pred \<Rightarrow> ('w, ref) comp" where
  "TryChain_pick this pred s =
     (case heap s ! this of
        Ok value \<Rightarrow> (let (c, s1) = new_TryChain (Ok value) s in (Inr c, s1))
      | Err error \<Rightarrow>
          (case isErrorOf error pred s of
             (Inl x, s1) \<Rightarrow> (Inl x, s1)
           | (Inr m, s1) \<Rightarrow>
               if truthy m then
                 (let (c, s2) = new_TryChain (Err error) s1 in (Inr c, s2))
               else (Inl error, s1)))"

definition TryChain_tap :: "ref \<Rightarrow> (val \<Rightarrow> ('w, val) comp) \<Rightarrow> ('w, ref) comp" where
  "TryChain_tap this f s =
     (case heap s ! this of
        Err error \<Rightarrow>
          (case f error s of
             (Inl x, s1) \<Rightarrow> (Inl x, s1)
           | (Inr u, s1) \<Rightarrow> (Inr this, s1))
      | Ok value \<Rightarrow> (Inr this, s))"

text \<open>
  The argument of \<open>done(fallback?)\<close>: left out, a function, or any other value (the
  overloads rule the last out for typed callers, the implementation does not).
  Calling a value that is not a function raises a \<open>TypeError\<close>.
\<close>

datatype 'w argument =
    Omitted
  | PassedFunction "val \<Rightarrow> ('w, val) comp"
  | Passed val

fun argument_truthy :: "'w argument \<Rightarrow> bool" where
  "argument_truthy Omitted = False"
| "argument_truthy (PassedFunction g) = True"
| "argument_truthy (Passed v) = truthy v"

fun call_argument :: "'w argument \<Rightarrow> val \<Rightarrow> ('w, val) comp" where
  "call_argument (PassedFunction g) x s = g x s"
| "call_argument a x s = (Inl (new_TypeError ''fallback is not a function''), s)"

definition TryChain_done :: "ref \<Rightarrow> 'w argument \<Rightarrow> ('w, val) comp" where
  "TryChain_done this fallback s =
     (case heap s ! this of
        Ok value \<Rightarrow> (Inr value, s)
      | Err error \<Rightarrow>
          if argument_truthy fallback then call_argument fallback error s
          else (Inl error, s))"

subsection \<open>Vocabulary for the statements about exception.ts\<close>

text \<open>
  \<open>allocates s s1\<close>: from \<open>s\<close> to \<open>s1\<close> instances were only created. Code of the user
  cannot do anything else to the store, the field \<open>result\<close> being readonly.
\<close>

definition allocates :: "'w state \<Rightarrow> 'w state \<Rightarrow> bool" where
  "allocates s s1 \<longleftrightarrow> prefix (heap s) (heap s1)"

text \<open>
  Inputs for the properties below: \<open>() => v\<close>; the constructor \<open>Error\<close>, which called
  without \<open>new\<close> makes an instance all the same, with the message \<open>String(e)\<close> (the
  host's conversion \<open>String\<close> is a parameter); the class \<open>DemoError extends Error\<close> of
  the tests, which cannot be called without \<open>new\<close>, and its instance
  \<open>new DemoError("demo")\<close>; the callback \<open>(e) => {}\<close> and the handler
  \<open>(c) => {}\<close>; and the arrow functions \<open>(e) => true\<close> and \<open>(e) => false\<close>.
\<close>

definition returning :: "val \<Rightarrow> ('w, val) comp" where
  "returning v s = (Inr v, s)"

definition empty_state :: "unit state" where
  "empty_state = \<lparr>heap = [], world = ()\<rparr>"

definition Error_constructor :: "(val \<Rightarrow> string) \<Rightarrow> unit pred" where
  "Error_constructor String =
     PFunction (Some Error_prototype) (\<lambda>e. returning (new_Error (String e)))"

definition DemoError_prototype :: proto where
  "DemoError_prototype = Derived ''DemoError'' Error_prototype"

definition DemoError_class :: "unit pred" where
  "DemoError_class =
     PFunction (Some DemoError_prototype)
       (\<lambda>e. Throw (new_TypeError ''Class constructor DemoError cannot be invoked without new''))"

definition demo_error :: val where
  "demo_error = VObject DemoError_prototype ''DemoError: demo''"

definition report_nothing :: "val \<Rightarrow> (unit, val) comp" where
  "report_nothing e = returning VUndefined"

definition handle_nothing :: "ref \<Rightarrow> (unit, val) comp" where
  "handle_nothing c = returning VUndefined"

definition arrow_always :: "unit pred" where
  "arrow_always = PFunction None (\<lambda>e. returning (VBool True))"

definition arrow_never :: "unit pred" where
  "arrow_never = PFunction None (\<lambda>e. returning (VBool False))"

section \<open>do.ts\<close>

subsection \<open>Steps, Thunk, AsyncThunk\<close>

text \<open>
  A step body is a function of the user: it takes the accumulator, may change the user's
  world \<open>'w\<close>, and returns (\<open>Inr\<close>) or throws (\<open>Inl\<close>). A step is the pair
  \<open>[isAsync, f]\<close>. The functions of the chain API are state-passing as well: those that
  call nothing hand the world back as they got it.
\<close>

type_synonym 'w fn = "val \<Rightarrow> 'w \<Rightarrow> (val + val) \<times> 'w"

type_synonym 'w step = "bool \<times> 'w fn"

text \<open>A function called with \<open>f.call(value, ...args)\<close>: receiver first, then arguments.\<close>

type_synonym 'w receiver_fn = "val \<Rightarrow> val list \<Rightarrow> 'w \<Rightarrow> (val + val) \<times> 'w"

datatype 'w Thunk = Thunk (Thunk_steps: "'w step list")

datatype 'w AsyncThunk = AsyncThunk (AsyncThunk_steps: "'w step list")

definition Do :: "val \<Rightarrow> 'w \<Rightarrow> 'w Thunk \<times> 'w" where
  "Do value w = (Thunk [(False, \<lambda>x w1. (Inr value, w1))], w)"

text \<open>
  The loop \<open>for (const [, f] of this._steps) { current = f(current); }\<close>, which a
  throwing step leaves.
\<close>

fun run_steps :: "'w step list \<Rightarrow> val \<Rightarrow> 'w \<Rightarrow> (val + val) \<times> 'w" where
  "run_steps [] current w = (Inr current, w)"
| "run_steps ((isAsync, f) # rest) current w =
     (case f current w of
        (Inl x, w1) \<Rightarrow> (Inl x, w1)
      | (Inr v, w1) \<Rightarrow> run_steps rest v w1)"

definition Thunk_done :: "'w Thunk \<Rightarrow> 'w \<Rightarrow> (val + val) \<times> 'w" where
  "Thunk_done this w = run_steps (Thunk_steps this) VUndefined w"

definition Thunk_pipe :: "'w fn \<Rightarrow> 'w Thunk \<Rightarrow> 'w \<Rightarrow> 'w Thunk \<times> 'w" where
  "Thunk_pipe f this w = (Thunk (Thunk_steps this @ [(False, f)]), w)"

definition Thunk_pipeAwait :: "'w fn \<Rightarrow> 'w Thunk \<Rightarrow> 'w \<Rightarrow> 'w AsyncThunk \<times> 'w" where
  "Thunk_pipeAwait f this w = (AsyncThunk (Thunk_steps this @ [(True, f)]), w)"

definition Thunk_rcall ::
  "'w receiver_fn \<Rightarrow> val list \<Rightarrow> 'w Thunk \<Rightarrow> 'w \<Rightarrow> 'w Thunk \<times> 'w" where
  "Thunk_rcall f args this w = Thunk_pipe (\<lambda>value. f value args) this w"

definition Thunk_rcallAwait ::
  "'w receiver_fn \<Rightarrow> val list \<Rightarrow> 'w Thunk \<Rightarrow> 'w \<Rightarrow> 'w AsyncThunk \<times> 'w" where
  "Thunk_rcallAwait f args this w = Thunk_pipeAwait (\<lambda>value. f value args) this w"

text \<open>The step body of \<open>tap\<close>: \<open>(value) => { f(value); return value; }\<close>.\<close>

definition tap_body :: "'w fn \<Rightarrow> 'w fn" where
  "tap_body f value w =
     (case f value w of
        (Inl x, w1) \<Rightarrow> (Inl x, w1)
      | (Inr u, w1) \<Rightarrow> (Inr value, w1))"

definition Thunk_tap :: "'w fn \<Rightarrow> 'w Thunk \<Rightarrow> 'w \<Rightarrow> 'w Thunk \<times> 'w" where
  "Thunk_tap f this w = Thunk_pipe (tap_body f) this w"

definition AsyncThunk_pipe :: "'w fn \<Rightarrow> 'w AsyncThunk \<Rightarrow> 'w \<Rightarrow> 'w AsyncThunk \<times> 'w" where
  "AsyncThunk_pipe f this w = (AsyncThunk (AsyncThunk_steps this @ [(False, f)]), w)"

definition AsyncThunk_pipeAwait ::
  "'w fn \<Rightarrow> 'w AsyncThunk \<Rightarrow> 'w \<Rightarrow> 'w AsyncThunk \<times> 'w" where
  "AsyncThunk_pipeAwait f this w = (AsyncThunk (AsyncThunk_steps this @ [(True, f)]), w)"

definition AsyncThunk_rcall ::
  "'w receiver_fn \<Rightarrow> val list \<Rightarrow> 'w AsyncThunk \<Rightarrow> 'w \<Rightarrow> 'w AsyncThunk \<times> 'w" where
  "AsyncThunk_rcall f args this w = AsyncThunk_pipe (\<lambda>value. f value args) this w"

definition AsyncThunk_rcallAwait ::
  "'w receiver_fn \<Rightarrow> val list \<Rightarrow> 'w AsyncThunk \<Rightarrow> 'w \<Rightarrow> 'w AsyncThunk \<times> 'w" where
  "AsyncThunk_rcallAwait f args this w = AsyncThunk_pipeAwait (\<lambda>value. f value args) this w"

definition AsyncThunk_tap :: "'w fn \<Rightarrow> 'w AsyncThunk \<Rightarrow> 'w \<Rightarrow> 'w AsyncThunk \<times> 'w" where
  "AsyncThunk_tap f this w = AsyncThunk_pipe (tap_body f) this w"

text \<open>
  \<open>q.then(() => value)\<close> for what \<open>f(value)\<close> returned: on a promise it makes the promise
  \<open>Then p value\<close>; on an object with a method \<open>then\<close> of its own it calls that method
  with the callback and \<open>undefined\<close> (so a method that calls its second argument throws)
  and gives what the method returns, \<open>undefined\<close>; on an object that inherits
  \<open>Promise.prototype.then\<close> without being a promise, and on any value with no \<open>then\<close>, it
  throws a \<open>TypeError\<close> (the messages are those of V8).
\<close>

fun call_then :: "val \<Rightarrow> val \<Rightarrow> val + val" where
  "call_then (VPromise p) value = Inr (VPromise (Then p value))"
| "call_then (VThenable (Calls_onFulfilled u)) value = Inr VUndefined"
| "call_then (VThenable (Calls_onRejected e)) value =
     Inl (new_TypeError ''onRejected is not a function'')"
| "call_then (VThenable Calls_neither) value = Inr VUndefined"
| "call_then (VObject p m) value =
     (if Promise_prototype \<in> set (p # ancestors p)
      then Inl (new_TypeError ''Method Promise.prototype.then called on incompatible receiver'')
      else Inl (new_TypeError ''f(...).then is not a function''))"
| "call_then VUndefined value =
     Inl (new_TypeError ''Cannot read properties of undefined (reading 'then')'')"
| "call_then VNull value =
     Inl (new_TypeError ''Cannot read properties of null (reading 'then')'')"
| "call_then (VBool b) value = Inl (new_TypeError ''f(...).then is not a function'')"
| "call_then (VNum n) value = Inl (new_TypeError ''f(...).then is not a function'')"
| "call_then (VStr s) value = Inl (new_TypeError ''f(...).then is not a function'')"

text \<open>The step body of \<open>tapAwait\<close>: \<open>(value) => f(value).then(() => value)\<close>.\<close>

definition tapAwait_body :: "'w fn \<Rightarrow> 'w fn" where
  "tapAwait_body f value w =
     (case f value w of
        (Inl x, w1) \<Rightarrow> (Inl x, w1)
      | (Inr q, w1) \<Rightarrow> (call_then q value, w1))"

definition Thunk_tapAwait :: "'w fn \<Rightarrow> 'w Thunk \<Rightarrow> 'w \<Rightarrow> 'w AsyncThunk \<times> 'w" where
  "Thunk_tapAwait f this w = Thunk_pipeAwait (tapAwait_body f) this w"

definition AsyncThunk_tapAwait ::
  "'w fn \<Rightarrow> 'w AsyncThunk \<Rightarrow> 'w \<Rightarrow> 'w AsyncThunk \<times> 'w" where
  "AsyncThunk_tapAwait f this w = AsyncThunk_pipeAwait (tapAwait_body f) this w"

text \<open>\<open>TryAsync\<close> of do.ts and the helpers of tap.ts are not modelled.\<close>

subsection \<open>Method chains\<close>

text \<open>
  A method chain \<open>Do(value).m1(...).m2(...)\<close> is a list of calls; each call goes to the
  method of the class of its receiver.
\<close>

datatype 'w chain = Sync "'w Thunk" | Async "'w AsyncThunk"

datatype 'w call =
    Pipe "'w fn"
  | PipeAwait "'w fn"
  | Rcall "'w receiver_fn" "val list"
  | RcallAwait "'w receiver_fn" "val list"
  | Tap "'w fn"
  | TapAwait "'w fn"

fun Sync_of :: "'w Thunk \<times> 'w \<Rightarrow> 'w chain \<times> 'w" where
  "Sync_of (t, w) = (Sync t, w)"

fun Async_of :: "'w AsyncThunk \<times> 'w \<Rightarrow> 'w chain \<times> 'w" where
  "Async_of (a, w) = (Async a, w)"

fun invoke :: "'w call \<Rightarrow> 'w chain \<Rightarrow> 'w \<Rightarrow> 'w chain \<times> 'w" where
  "invoke (Pipe f) (Sync t) w = Sync_of (Thunk_pipe f t w)"
| "invoke (PipeAwait f) (Sync t) w = Async_of (Thunk_pipeAwait f t w)"
| "invoke (Rcall f args) (Sync t) w = Sync_of (Thunk_rcall f args t w)"
| "invoke (RcallAwait f args) (Sync t) w = Async_of (Thunk_rcallAwait f args t w)"
| "invoke (Tap f) (Sync t) w = Sync_of (Thunk_tap f t w)"
| "invoke (TapAwait f) (Sync t) w = Async_of (Thunk_tapAwait f t w)"
| "invoke (Pipe f) (Async a) w = Async_of (AsyncThunk_pipe f a w)"
| "invoke (PipeAwait f) (Async a) w = Async_of (AsyncThunk_pipeAwait f a w)"
| "invoke (Rcall f args) (Async a) w = Async_of (AsyncThunk_rcall f args a w)"
| "invoke (RcallAwait f args) (Async a) w = Async_of (AsyncThunk_rcallAwait f args a w)"
| "invoke (Tap f) (Async a) w = Async_of (AsyncThunk_tap f a w)"
| "invoke (TapAwait f) (Async a) w = Async_of (AsyncThunk_tapAwait f a w)"

fun invoke_all :: "'w call list \<Rightarrow> 'w chain \<Rightarrow> 'w \<Rightarrow> 'w chain \<times> 'w" where
  "invoke_all [] c w = (c, w)"
| "invoke_all (x # xs) c w = (case invoke x c w of (c1, w1) \<Rightarrow> invoke_all xs c1 w1)"

definition method_chain :: "val \<Rightarrow> 'w call list \<Rightarrow> 'w \<Rightarrow> 'w chain \<times> 'w" where
  "method_chain value calls w = (case Do value w of (t, w1) \<Rightarrow> invoke_all calls (Sync t) w1)"

fun chain_steps :: "'w chain \<Rightarrow> 'w step list" where
  "chain_steps (Sync t) = Thunk_steps t"
| "chain_steps (Async a) = AsyncThunk_steps a"

subsection \<open>When a promise settles\<close>

text \<open>
  Time is counted in rounds of the microtask queue: round \<open>0\<close> is the turn that is
  running, and a job queued by a job of round \<open>t\<close> runs in round \<open>t + 1\<close>. For a promise
  made in round \<open>0\<close>, \<open>settles p\<close> is the round in which it settles and how (\<open>Inr\<close>
  fulfilled, \<open>Inl\<close> rejected), or \<open>None\<close> when it stays pending for ever:
  \<^item> \<open>resolved_in t v\<close>: the resolving function of a promise is called with \<open>v\<close> in round
    \<open>t\<close>. A \<open>v\<close> that is no thenable fulfils the promise in that round. For a thenable
    the job that calls \<open>v.then(resolve, reject)\<close> runs in round \<open>t + 1\<close>: on a promise
    \<open>v\<close> that settles in round \<open>r\<close> the reaction runs one round after both, in round
    \<open>max r (t + 1) + 1\<close>; an own method \<open>then\<close> calls \<open>resolve\<close> or \<open>reject\<close> in round
    \<open>t + 1\<close>; \<open>Promise.prototype.then\<close> on an object that is no promise throws, which
    rejects the promise in round \<open>t + 1\<close>.
  \<^item> \<open>Then p v\<close>: the callback \<open>() => v\<close> runs one round after \<open>p\<close> is fulfilled and
    resolves the new promise with \<open>v\<close>; a rejection of \<open>p\<close> is handed on one round
    after \<open>p\<close> is rejected.
  \<open>awaited v\<close> is the same for the promise that \<open>await v\<close> waits for: \<open>v\<close> itself when
  it is a promise, and a new promise resolved with \<open>v\<close> otherwise. The continuation of
  the \<open>await\<close> runs one round after that promise settles.
\<close>

fun settles :: "promise \<Rightarrow> (nat \<times> (val + val)) option"
  and resolved_in :: "nat \<Rightarrow> val \<Rightarrow> (nat \<times> (val + val)) option"
  and then_called_in :: "nat \<Rightarrow> own_then \<Rightarrow> (nat \<times> (val + val)) option" where
  "settles (Resolved v) = resolved_in 0 v"
| "settles (Rejected e) = Some (0, Inl e)"
| "settles (Then p v) =
     (case settles p of
        None \<Rightarrow> None
      | Some (r, Inl e) \<Rightarrow> Some (Suc r, Inl e)
      | Some (r, Inr x) \<Rightarrow> resolved_in (Suc r) v)"
| "settles Never = None"
| "resolved_in t (VPromise q) =
     (case settles q of
        None \<Rightarrow> None
      | Some (r, out) \<Rightarrow> Some (Suc (max r (Suc t)), out))"
| "resolved_in t (VThenable a) = then_called_in (Suc t) a"
| "resolved_in t (VObject p m) =
     (if Promise_prototype \<in> set (p # ancestors p)
      then Some (Suc t, Inl (new_TypeError ''Method Promise.prototype.then called on incompatible receiver''))
      else Some (t, Inr (VObject p m)))"
| "resolved_in t VUndefined = Some (t, Inr VUndefined)"
| "resolved_in t VNull = Some (t, Inr VNull)"
| "resolved_in t (VBool b) = Some (t, Inr (VBool b))"
| "resolved_in t (VNum n) = Some (t, Inr (VNum n))"
| "resolved_in t (VStr s) = Some (t, Inr (VStr s))"
| "then_called_in t (Calls_onFulfilled u) = resolved_in t u"
| "then_called_in t (Calls_onRejected e) = Some (t, Inl e)"
| "then_called_in t Calls_neither = None"

fun awaited :: "val \<Rightarrow> (nat \<times> (val + val)) option" where
  "awaited (VPromise p) = settles p"
| "awaited v = resolved_in 0 v"

text \<open>\<open>Promise.resolve(v)\<close>: \<open>v\<close> itself when it is a promise.\<close>

fun Promise_resolve :: "val \<Rightarrow> val" where
  "Promise_resolve (VPromise p) = VPromise p"
| "Promise_resolve v = VPromise (Resolved v)"

subsection \<open>The microtask queue and AsyncThunk.done\<close>

text \<open>
  \<open>AsyncThunk.done\<close> suspends, so its model runs on the host's microtask queue. The
  machine holds the user's world, the queue, the counter of the tests' class
  \<open>MicrotickCouter\<close>, and the promise of the one \<open>async\<close> function \<open>done()\<close> starts.
  The jobs on the queue are the three continuations there are, and the jobs of the
  promises a continuation waits for:
  \<^item> \<open>CounterJob i\<close>: the loop of \<open>MicrotickCouter\<close> after its \<open>await\<close>, loop variable \<open>i\<close>;
  \<^item> \<open>ResumeJob r rest\<close>: the \<open>async\<close> function of \<open>done()\<close> after an \<open>await\<close> whose
    promise settled as \<open>r\<close>, with the steps \<open>rest\<close> still to run;
  \<^item> \<open>MainJob r\<close>: the caller of \<open>done()\<close> after its \<open>await\<close>;
  \<^item> \<open>Later n j\<close>: a job of the promise that \<open>j\<close> waits for (a reaction of \<open>then\<close>,
    the call of a thenable's \<open>then\<close>), with \<open>n\<close> more such jobs to come, one a round,
    before the promise settles. It touches neither the counter nor the world and
    queues \<open>later n j\<close>: the next of them, or \<open>j\<close> itself when it settles the promise.
  An \<open>await\<close> of a value whose promise settles in round \<open>r\<close> puts \<open>later r\<close> of the
  continuation at the end of the queue, so that the continuation runs in round
  \<open>r + 1\<close>; it queues nothing when the promise never settles.
\<close>

datatype tick = Finite nat | Infinity

datatype 'w job =
    CounterJob nat
  | ResumeJob "val + val" "'w step list"
  | MainJob "val + val"
  | Later nat "'w job"

datatype promise_state = Pending bool | Settled "val + val"

record 'w machine =
  mworld :: 'w
  count :: tick
  queue :: "'w job list"
  iife :: promise_state

fun later :: "nat \<Rightarrow> 'w job \<Rightarrow> 'w job" where
  "later 0 j = j"
| "later (Suc n) j = Later n j"

definition suspend :: "val \<Rightarrow> (val + val \<Rightarrow> 'w job) \<Rightarrow> 'w machine \<Rightarrow> 'w machine" where
  "suspend v continuation m =
     (case awaited v of
        None \<Rightarrow> m
      | Some (r, out) \<Rightarrow> m\<lparr>queue := queue m @ [later r (continuation out)]\<rparr>)"

text \<open>
  The \<open>async\<close> function returns or throws: its promise settles, and the caller's
  continuation is queued if the caller awaits it already (\<open>Pending True\<close>).
\<close>

definition settle :: "val + val \<Rightarrow> 'w machine \<Rightarrow> 'w machine" where
  "settle r m =
     (case iife m of
        Pending waiting \<Rightarrow>
          if waiting then m\<lparr>queue := queue m @ [MainJob r], iife := Settled r\<rparr>
          else m\<lparr>iife := Settled r\<rparr>
      | Settled r0 \<Rightarrow> m)"

definition usage_error :: val where
  "usage_error = new_Error ''AsyncThunk: pipe callback returned a promise; try pipeAwait instead''"

text \<open>
  The body of the \<open>async\<close> function from \<open>current\<close> on, up to its next \<open>await\<close> or its
  end:
  \<^verbatim>\<open>for (const [isAsync, f] of this._steps) {
    current = isAsync ? await f(current) : f(current);
  }
  if (typeof current?.then === "function") { throw new Error(...); }
  return current;\<close>
\<close>

fun async_body :: "'w step list \<Rightarrow> val \<Rightarrow> 'w machine \<Rightarrow> 'w machine" where
  "async_body [] current m =
     settle (if thenable current then Inl usage_error else Inr current) m"
| "async_body ((isAsync, f) # rest) current m =
     (case f current (mworld m) of
        (Inl x, w1) \<Rightarrow> settle (Inl x) (m\<lparr>mworld := w1\<rparr>)
      | (Inr v, w1) \<Rightarrow>
          if isAsync then suspend v (\<lambda>out. ResumeJob out rest) (m\<lparr>mworld := w1\<rparr>)
          else async_body rest v (m\<lparr>mworld := w1\<rparr>))"

definition isSimplePipeline :: "'w step list \<Rightarrow> bool" where
  "isSimplePipeline steps \<longleftrightarrow>
     length steps \<ge> 1
     \<and> fst (steps ! (length steps - 1))
     \<and> list_all (\<lambda>(isAsync, f). \<not> isAsync) (take (length steps - 1) steps)"

text \<open>
  What \<open>done()\<close> hands to its caller: on the simple path the value the last step
  returned, as it is; otherwise the promise of the \<open>async\<close> function.
\<close>

datatype awaitable = Value val | AsyncFunctionPromise

definition AsyncThunk_done :: "'w AsyncThunk \<Rightarrow> 'w machine \<Rightarrow> (val + awaitable) \<times> 'w machine" where
  "AsyncThunk_done this m =
     (if isSimplePipeline (AsyncThunk_steps this) then
        (case run_steps (AsyncThunk_steps this) VUndefined (mworld m) of
           (Inl x, w1) \<Rightarrow> (Inl x, m\<lparr>mworld := w1\<rparr>)
         | (Inr current, w1) \<Rightarrow> (Inr (Value current), m\<lparr>mworld := w1\<rparr>))
      else (Inr AsyncFunctionPromise, async_body (AsyncThunk_steps this) VUndefined m))"

subsection \<open>The tests' tick counter and event loop\<close>

text \<open>
  \<^verbatim>\<open>new MicrotickCouter(maxCount)\<close> starts
  \<^verbatim>\<open>for (let i = 0; i <= maxCount; i++) { this._count = i; await null; }
  this._count = Infinity;\<close>
  which runs up to its first \<open>await\<close> at once.
\<close>

definition new_MicrotickCouter :: "'w \<Rightarrow> 'w machine" where
  "new_MicrotickCouter w =
     \<lparr>mworld = w, count = Finite 0, queue = [CounterJob 0], iife = Pending False\<rparr>"

definition counter_resume :: "nat \<Rightarrow> nat \<Rightarrow> 'w machine \<Rightarrow> 'w machine" where
  "counter_resume maxCount i m =
     (if Suc i \<le> maxCount
      then m\<lparr>count := Finite (Suc i), queue := queue m @ [CounterJob (Suc i)]\<rparr>
      else m\<lparr>count := Infinity\<rparr>)"

text \<open>The caller's \<open>await\<close> of what \<open>done()\<close> returned.\<close>

fun await_main :: "awaitable \<Rightarrow> 'w machine \<Rightarrow> 'w machine" where
  "await_main (Value v) m = suspend v MainJob m"
| "await_main AsyncFunctionPromise m =
     (case iife m of
        Settled r \<Rightarrow> m\<lparr>queue := queue m @ [MainJob r]\<rparr>
      | Pending waiting \<Rightarrow> m\<lparr>iife := Pending True\<rparr>)"

text \<open>
  The event loop runs the jobs in order until the caller of \<open>done()\<close> is resumed, and
  gives what the caller sees then: the counter, the outcome of its \<open>await\<close> (\<open>Inr\<close> its
  value, \<open>Inl\<close> what it throws), the world. \<open>None\<close>: the caller was not resumed within
  \<open>fuel\<close> jobs.
\<close>

fun run_jobs :: "nat \<Rightarrow> nat \<Rightarrow> 'w machine \<Rightarrow> (tick \<times> (val + val) \<times> 'w) option" where
  "run_jobs maxCount 0 m = None"
| "run_jobs maxCount (Suc fuel) m =
     (case queue m of
        [] \<Rightarrow> None
      | CounterJob i # jobs \<Rightarrow> run_jobs maxCount fuel (counter_resume maxCount i (m\<lparr>queue := jobs\<rparr>))
      | ResumeJob (Inl x) rest # jobs \<Rightarrow> run_jobs maxCount fuel (settle (Inl x) (m\<lparr>queue := jobs\<rparr>))
      | ResumeJob (Inr v) rest # jobs \<Rightarrow> run_jobs maxCount fuel (async_body rest v (m\<lparr>queue := jobs\<rparr>))
      | MainJob r # jobs \<Rightarrow> Some (count m, r, mworld m)
      | Later n j # jobs \<Rightarrow> run_jobs maxCount fuel (m\<lparr>queue := jobs @ [later n j]\<rparr>))"

text \<open>
  The tests "AsyncThunk await count":
  \<^verbatim>\<open>const counter = new MicrotickCouter(10);
  const result = await Do(0). ... .done();     // no await for a Thunk
  assertEquals(counter.count, ...);\<close>
\<close>

definition await_count ::
  "nat \<Rightarrow> nat \<Rightarrow> val \<Rightarrow> 'w call list \<Rightarrow> 'w \<Rightarrow> (tick \<times> (val + val) \<times> 'w) option" where
  "await_count maxCount fuel value calls w =
     (let m0 = new_MicrotickCouter w in
      case method_chain value calls (mworld m0) of
        (Sync t, w1) \<Rightarrow>
          (case Thunk_done t w1 of (r, w2) \<Rightarrow> Some (count m0, r, w2))
      | (Async a, w1) \<Rightarrow>
          (case AsyncThunk_done a (m0\<lparr>mworld := w1\<rparr>) of
             (Inl x, m1) \<Rightarrow> Some (count m1, Inl x, mworld m1)
           | (Inr p, m1) \<Rightarrow> run_jobs maxCount fuel (await_main p m1)))"

subsection \<open>Awaiting done() without a counter\<close>

text \<open>
  The test "Fails on unprecedented Promise collapse" awaits \<open>done()\<close> with nothing else
  on the queue. \<open>await_result\<close> gives how the call went, and the world: \<open>done()\<close> of a
  \<open>Thunk\<close> returned a value or threw; \<open>done()\<close> of an \<open>AsyncThunk\<close> threw before it
  returned, or it returned and the \<open>await\<close> of what it returned gave a value
  (\<open>Fulfilled_with\<close>) or threw the reason of a rejection (\<open>Rejected_with\<close>).
\<close>

datatype completion = Returned val | Threw val | Fulfilled_with val | Rejected_with val

fun outcome :: "val + val \<Rightarrow> completion" where
  "outcome (Inl e) = Rejected_with e"
| "outcome (Inr v) = Fulfilled_with v"

definition await_result :: "nat \<Rightarrow> val \<Rightarrow> 'w call list \<Rightarrow> 'w \<Rightarrow> (completion \<times> 'w) option" where
  "await_result fuel value calls w =
     (case method_chain value calls w of
        (Sync t, w1) \<Rightarrow>
          (case Thunk_done t w1 of
             (Inl x, w2) \<Rightarrow> Some (Threw x, w2)
           | (Inr v, w2) \<Rightarrow> Some (Returned v, w2))
      | (Async a, w1) \<Rightarrow>
          (case AsyncThunk_done a \<lparr>mworld = w1, count = Finite 0, queue = [], iife = Pending False\<rparr> of
             (Inl x, m1) \<Rightarrow> Some (Threw x, mworld m1)
           | (Inr p, m1) \<Rightarrow>
               (case run_jobs 0 fuel (await_main p m1) of
                  None \<Rightarrow> None
                | Some (c, r, w2) \<Rightarrow> Some (outcome r, w2))))"

subsection \<open>Vocabulary for the statements about do.ts\<close>

text \<open>The step each call of a chain method appends, and whether it is asynchronous.\<close>

fun call_step :: "'w call \<Rightarrow> 'w step" where
  "call_step (Pipe f) = (False, f)"
| "call_step (PipeAwait f) = (True, f)"
| "call_step (Rcall f args) = (False, \<lambda>value. f value args)"
| "call_step (RcallAwait f args) = (True, \<lambda>value. f value args)"
| "call_step (Tap f) = (False, tap_body f)"
| "call_step (TapAwait f) = (True, tapAwait_body f)"

definition appends_async :: "'w call \<Rightarrow> bool" where
  "appends_async c = fst (call_step c)"

fun is_Async :: "'w chain \<Rightarrow> bool" where
  "is_Async (Async a) = True"
| "is_Async (Sync t) = False"

text \<open>
  What the \<open>async\<close> function of \<open>done()\<close> does from \<open>current\<close> on, told without the
  queue. \<open>accumulate\<close> is the value of \<open>current\<close> when its loop ends, or \<open>Inl\<close> of what
  a step threw or an awaited promise was rejected with; \<open>None\<close> when an awaited promise
  never settles. \<open>rounds\<close> is the number of rounds until then: for each \<open>await\<close> the
  rounds its promise takes to settle and one for the continuation. \<open>checked\<close> is the
  test after the loop.
\<close>

fun accumulate :: "'w step list \<Rightarrow> val \<Rightarrow> 'w \<Rightarrow> ((val + val) \<times> 'w) option" where
  "accumulate [] current w = Some (Inr current, w)"
| "accumulate ((isAsync, f) # rest) current w =
     (case f current w of
        (Inl x, w1) \<Rightarrow> Some (Inl x, w1)
      | (Inr v, w1) \<Rightarrow>
          if isAsync then
            (case awaited v of
               None \<Rightarrow> None
             | Some (r, Inl x) \<Rightarrow> Some (Inl x, w1)
             | Some (r, Inr u) \<Rightarrow> accumulate rest u w1)
          else accumulate rest v w1)"

fun rounds :: "'w step list \<Rightarrow> val \<Rightarrow> 'w \<Rightarrow> nat" where
  "rounds [] current w = 0"
| "rounds ((isAsync, f) # rest) current w =
     (case f current w of
        (Inl x, w1) \<Rightarrow> 0
      | (Inr v, w1) \<Rightarrow>
          if isAsync then
            (case awaited v of
               None \<Rightarrow> 0
             | Some (r, Inl x) \<Rightarrow> Suc r
             | Some (r, Inr u) \<Rightarrow> Suc r + rounds rest u w1)
          else rounds rest v w1)"

fun checked :: "val + val \<Rightarrow> val + val" where
  "checked (Inl x) = Inl x"
| "checked (Inr current) = (if thenable current then Inl usage_error else Inr current)"

text \<open>
  \<open>all_succeed\<close>: every step returns, and what an asynchronous step returns is ready
  when it is awaited: a value that is no thenable, or a promise that is fulfilled
  already (it settles in round \<open>0\<close>).
\<close>

fun all_succeed :: "'w step list \<Rightarrow> val \<Rightarrow> 'w \<Rightarrow> bool" where
  "all_succeed [] current w = True"
| "all_succeed ((isAsync, f) # rest) current w =
     (case f current w of
        (Inl x, w1) \<Rightarrow> False
      | (Inr v, w1) \<Rightarrow>
          if isAsync then
            (case awaited v of
               None \<Rightarrow> False
             | Some (r, Inl x) \<Rightarrow> False
             | Some (r, Inr u) \<Rightarrow> if r = 0 then all_succeed rest u w1 else False)
          else all_succeed rest v w1)"

text \<open>
  The counts in the words of the specification, for the asynchrony flags of the steps
  appended after \<open>Do\<close>: no asynchronous step, none; only the final step asynchronous,
  one; otherwise one per asynchronous step and one more.
\<close>

definition spec_suspensions :: "bool list \<Rightarrow> nat" where
  "spec_suspensions asyncs =
     (if \<not> list_ex id asyncs then 0
      else if \<not> list_ex id (butlast asyncs) then 1
      else length (filter id asyncs) + 1)"

text \<open>
  Step bodies of the tests: \<open>(it) => it + 1\<close>, \<open>(it) => it * 2\<close>,
  \<open>(it) => Promise.resolve(it + 1)\<close>, \<open>(it) => Promise.resolve(it * 2)\<close>,
  \<open>(it) => Promise.resolve(it)\<close>, \<open>(it) => it\<close> and
  \<open>(it) => { called = true; return it; }\<close>. The first four are typed
  \<open>(it: number) => ...\<close>; no chain below hands them anything but a number. Last, a
  body for \<open>tapAwait\<close>: \<open>async (it) => {}\<close>.
\<close>

definition number_fn :: "(int \<Rightarrow> val) \<Rightarrow> 'w fn" where
  "number_fn g it w = (case it of VNum n \<Rightarrow> (Inr (g n), w) | _ \<Rightarrow> (Inr VUndefined, w))"

definition plus_one :: "'w fn" where
  "plus_one = number_fn (\<lambda>n. VNum (n + 1))"

definition times_two :: "'w fn" where
  "times_two = number_fn (\<lambda>n. VNum (n * 2))"

definition resolve_plus_one :: "'w fn" where
  "resolve_plus_one = number_fn (\<lambda>n. Promise_resolve (VNum (n + 1)))"

definition resolve_times_two :: "'w fn" where
  "resolve_times_two = number_fn (\<lambda>n. Promise_resolve (VNum (n * 2)))"

definition resolve_it :: "'w fn" where
  "resolve_it it w = (Inr (Promise_resolve it), w)"

definition identity_fn :: "'w fn" where
  "identity_fn it w = (Inr it, w)"

definition set_called :: "bool fn" where
  "set_called it called = (Inr it, True)"

definition async_nothing :: "'w fn" where
  "async_nothing it w = (Inr (VPromise (Resolved VUndefined)), w)"

section \<open>Properties of exception.ts\<close>

lemma allocates_refl: "allocates s s"
  by (simp add: allocates_def)

lemma allocates_trans: "allocates s s1 \<Longrightarrow> allocates s1 s2 \<Longrightarrow> allocates s s2"
  by (auto simp: allocates_def)

lemma allocates_new: "allocates s (snd (new_TryChain r s))"
  by (simp add: allocates_def new_TryChain_def)

lemma allocates_nth: "allocates s s1 \<Longrightarrow> this < length (heap s) \<Longrightarrow> heap s1 ! this = heap s ! this"
  by (auto simp: allocates_def prefix_def nth_append)

lemma allocates_length: "allocates s s1 \<Longrightarrow> length (heap s) \<le> length (heap s1)"
  by (auto simp: allocates_def prefix_def)

text \<open>
  C3. \<open>Try(f)\<close> calls \<open>f\<close> at once, in the state it is called in, and never throws:
  what \<open>f\<close> returned or threw is stored in a new \<open>TryChain\<close>, in the state \<open>f\<close> left.
  On the chain of a function that returned \<open>v\<close>, \<open>done()\<close> returns \<open>v\<close>. On the chain of
  a function that threw \<open>e\<close>, \<open>done()\<close> throws \<open>e\<close> itself and \<open>done(fallback)\<close> is
  \<open>fallback(e)\<close>.
\<close>

theorem Try_then_done:
  fixes f :: "('w, val) comp"
  shows "(\<exists>c s2. Try f s = (Inr c, s2)) \<and>
    (\<forall>v s1. f s = (Inr v, s1) \<longrightarrow>
       Try f s = (Inr (length (heap s1)), s1\<lparr>heap := heap s1 @ [Ok v]\<rparr>) \<and>
       TryChain_done (length (heap s1)) Omitted (s1\<lparr>heap := heap s1 @ [Ok v]\<rparr>)
         = (Inr v, s1\<lparr>heap := heap s1 @ [Ok v]\<rparr>)) \<and>
    (\<forall>e s1. f s = (Inl e, s1) \<longrightarrow>
       Try f s = (Inr (length (heap s1)), s1\<lparr>heap := heap s1 @ [Err e]\<rparr>) \<and>
       TryChain_done (length (heap s1)) Omitted (s1\<lparr>heap := heap s1 @ [Err e]\<rparr>)
         = (Inl e, s1\<lparr>heap := heap s1 @ [Err e]\<rparr>) \<and>
       (\<forall>fallback. TryChain_done (length (heap s1)) (PassedFunction fallback) (s1\<lparr>heap := heap s1 @ [Err e]\<rparr>)
         = fallback e (s1\<lparr>heap := heap s1 @ [Err e]\<rparr>)))"
  by (cases "f s") (auto simp: Try_def new_TryChain_def TryChain_done_def split: sum.splits)

text \<open>
  C3 at \<open>Try(() => 7)\<close> and at \<open>Try(() => { throw "boom" })\<close> with the fallback
  \<open>() => 42\<close>.
\<close>

theorem Try_then_done_witness:
  "Try (returning (VNum 7)) empty_state = (Inr 0, \<lparr>heap = [Ok (VNum 7)], world = ()\<rparr>) \<and>
   TryChain_done 0 Omitted \<lparr>heap = [Ok (VNum 7)], world = ()\<rparr> = (Inr (VNum 7), \<lparr>heap = [Ok (VNum 7)], world = ()\<rparr>) \<and>
   Try (Throw (VStr ''boom'')) empty_state = (Inr 0, \<lparr>heap = [Err (VStr ''boom'')], world = ()\<rparr>) \<and>
   TryChain_done 0 Omitted \<lparr>heap = [Err (VStr ''boom'')], world = ()\<rparr> = (Inl (VStr ''boom''), \<lparr>heap = [Err (VStr ''boom'')], world = ()\<rparr>) \<and>
   TryChain_done 0 (PassedFunction (\<lambda>e. returning (VNum 42))) \<lparr>heap = [Err (VStr ''boom'')], world = ()\<rparr>
     = (Inr (VNum 42), \<lparr>heap = [Err (VStr ''boom'')], world = ()\<rparr>)"
  using Try_then_done [of "returning (VNum 7)" empty_state]
    Try_then_done [of "Throw (VStr ''boom'')" empty_state]
  by (simp add: returning_def Throw_def empty_state_def)

text \<open>
  C10. On a chain holding \<open>Err e\<close>, \<open>done(v)\<close> with a falsy \<open>v\<close> passed as fallback
  (\<open>undefined\<close>, \<open>null\<close>, \<open>false\<close>, \<open>0\<close>, \<open>""\<close>) throws \<open>e\<close>, exactly as \<open>done()\<close>
  does: the method tests the truthiness of the argument, not its presence.
\<close>

theorem done_falsy_fallback:
  fixes s :: "'w state"
  shows "heap s ! this = Err e \<and> \<not> truthy v \<longrightarrow>
     TryChain_done this (Passed v) s = (Inl e, s) \<and>
     TryChain_done this (Passed v) s = TryChain_done this Omitted s"
  by (simp add: TryChain_done_def)

text \<open>
  C10 at \<open>done(undefined)\<close> on \<open>Err "boom"\<close>.
\<close>

theorem done_falsy_fallback_witness:
  "TryChain_done 0 (Passed VUndefined) \<lparr>heap = [Err (VStr ''boom'')], world = ()\<rparr>
     = (Inl (VStr ''boom''), \<lparr>heap = [Err (VStr ''boom'')], world = ()\<rparr>)"
  using done_falsy_fallback [of "\<lparr>heap = [Err (VStr ''boom'')], world = ()\<rparr>" 0 "VStr ''boom''" VUndefined]
  by simp

text \<open>
  How \<open>isErrorOf\<close> treats a function depends on \<open>pred.prototype\<close> alone. An arrow
  function has none: \<open>Object.getPrototypeOf(undefined)\<close> throws before the function is
  called, whatever the error and whatever the function.
\<close>

lemma isErrorOf_arrow_function:
  "isErrorOf e (PFunction None call) s
     = (Inl (new_TypeError ''Cannot convert undefined or null to object''), s)"
  by (simp add: isLikelyErrorConstructor_def has_instance_def Object_getPrototypeOf_def)

text \<open>
  C6, second part ("a boolean classifier function matches iff it returns true"), at
  the classifier \<open>(e) => true\<close> and the error \<open>new Error("x")\<close>: \<open>isErrorOf\<close> throws a
  \<open>TypeError\<close> where the classifier answers true. The documentation of
  \<open>ErrorPredicate\<close> gives arrow functions as its examples of predicate functions.
\<close>

theorem isErrorOf_arrow_function_raises:
  "isErrorOf (new_Error ''x'') arrow_always empty_state
     = (Inl (new_TypeError ''Cannot convert undefined or null to object''), empty_state)"
  by (simp add: arrow_always_def isLikelyErrorConstructor_def has_instance_def Object_getPrototypeOf_def)

text \<open>
  The other cases of \<open>isErrorOf\<close>. The constructor \<open>Error\<close> itself is not taken for a
  constructor (\<open>Error.prototype\<close> is no instance of \<open>Error\<close> and its prototype is
  \<open>Object.prototype\<close>): it is called, as a function declared with \<open>function\<close> is.
  A constructor below \<open>Error\<close> is tested with \<open>instanceof\<close>.
\<close>

lemma isErrorOf_Error_is_called:
  "isErrorOf e (PFunction (Some Error_prototype) call) s = call e s"
  by (simp add: isLikelyErrorConstructor_def has_instance_def Object_getPrototypeOf_def Error_prototype_def)

lemma isErrorOf_plain_function:
  "isErrorOf e (PFunction (Some (Derived name ObjectPrototype)) call) s = call e s"
  by (simp add: isLikelyErrorConstructor_def has_instance_def Object_getPrototypeOf_def Error_prototype_def)

lemma isErrorOf_subclass_of_Error:
  "Error_prototype \<in> set (ancestors p) \<Longrightarrow>
   isErrorOf e (PFunction (Some p) call) s =
     (Inr (VBool (case object_proto e of None \<Rightarrow> False | Some q \<Rightarrow> p \<in> set (q # ancestors q))), s)"
  by (simp add: isLikelyErrorConstructor_def has_instance_def instanceof_def split: option.splits)

lemma isErrorOf_invalid:
  "isErrorOf e (POther v) s = (Inl (new_Error ''Invalid predicate''), s)"
  by simp

text \<open>An array is tried in order and stops at the first truthy answer.\<close>

lemma isErrorOf_array:
  "isErrorOf e (PArray []) s = (Inr (VBool False), s)"
  "isErrorOf e (PArray (p # ps)) s =
     (case isErrorOf e p s of
        (Inl x, s1) \<Rightarrow> (Inl x, s1)
      | (Inr m, s1) \<Rightarrow>
          if truthy m then (Inr (VBool True), s1) else isErrorOf e (PArray ps) s1)"
  by (simp_all split: prod.splits sum.splits)

text \<open>
  So \<open>pick(Error)\<close> and \<open>case(Error, f)\<close> take every thrown value for a match, an
  \<open>Error\<close> or not: \<open>Error(e)\<close> is an object, hence truthy. A class below \<open>Error\<close> is
  matched by its instances.
\<close>

lemma isErrorOf_Error_constructor:
  "isErrorOf e (Error_constructor String) s = (Inr (new_Error (String e)), s)
   \<and> truthy (new_Error (String e))"
  unfolding Error_constructor_def isErrorOf_Error_is_called
  by (simp add: returning_def new_Error_def)

lemma isErrorOf_DemoError_class:
  "isErrorOf e DemoError_class s =
     (Inr (VBool (case object_proto e of
                    None \<Rightarrow> False
                  | Some p \<Rightarrow> DemoError_prototype \<in> set (p # ancestors p))), s)"
proof -
  have "Error_prototype \<in> set (ancestors DemoError_prototype)"
    by (simp add: DemoError_prototype_def)
  then show ?thesis
    unfolding DemoError_class_def by (rule isErrorOf_subclass_of_Error)
qed

lemma isErrorOf_demo_error:
  "isErrorOf demo_error DemoError_class s = (Inr (VBool True), s)"
  "isErrorOf (new_Error m) DemoError_class s = (Inr (VBool False), s)"
  by (simp_all add: isErrorOf_DemoError_class demo_error_def new_Error_def
        DemoError_prototype_def Error_prototype_def)

subsection \<open>pick\<close>

text \<open>
  What \<open>pick(pred)\<close> does when \<open>isErrorOf\<close> gives an answer: on a chain holding \<open>Ok v\<close>
  it returns a chain holding \<open>Ok v\<close> and does not look at \<open>pred\<close>; on \<open>Err e\<close> with a
  truthy answer it returns a chain holding \<open>Err e\<close>, the same error value; on \<open>Err e\<close>
  with a falsy answer it throws \<open>e\<close> itself.
\<close>

lemma pick_when_isErrorOf_answers:
  fixes pred :: "'w pred"
  shows "(\<forall>v. heap s ! this = Ok v \<longrightarrow>
       (\<exists>c s1. TryChain_pick this pred s = (Inr c, s1) \<and> heap s1 ! c = Ok v \<and> world s1 = world s)) \<and>
    (\<forall>e m s1. heap s ! this = Err e \<and> isErrorOf e pred s = (Inr m, s1) \<and> truthy m \<longrightarrow>
       (\<exists>c s2. TryChain_pick this pred s = (Inr c, s2) \<and> heap s2 ! c = Err e \<and> world s2 = world s1)) \<and>
    (\<forall>e m s1. heap s ! this = Err e \<and> isErrorOf e pred s = (Inr m, s1) \<and> \<not> truthy m \<longrightarrow>
       TryChain_pick this pred s = (Inl e, s1))"
  by (auto simp: TryChain_pick_def new_TryChain_def)

lemma pick_DemoError:
  "TryChain_pick 0 DemoError_class \<lparr>heap = [Ok (VNum 1)], world = ()\<rparr>
     = (Inr 1, \<lparr>heap = [Ok (VNum 1), Ok (VNum 1)], world = ()\<rparr>)"
  "TryChain_pick 0 DemoError_class \<lparr>heap = [Err demo_error], world = ()\<rparr>
     = (Inr 1, \<lparr>heap = [Err demo_error, Err demo_error], world = ()\<rparr>)"
  "TryChain_pick 0 DemoError_class \<lparr>heap = [Err (new_Error ''e'')], world = ()\<rparr>
     = (Inl (new_Error ''e''), \<lparr>heap = [Err (new_Error ''e'')], world = ()\<rparr>)"
  by (simp_all add: TryChain_pick_def new_TryChain_def isErrorOf_demo_error)

text \<open>
  When the predicate is an arrow function \<open>isErrorOf\<close> gives no answer, and \<open>pick\<close>
  throws the \<open>TypeError\<close> of \<open>isErrorOf\<close> whatever the chain holds as error.
\<close>

lemma pick_arrow_function:
  "heap s ! this = Err e \<Longrightarrow>
   TryChain_pick this (PFunction None call) s
     = (Inl (new_TypeError ''Cannot convert undefined or null to object''), s)"
  unfolding TryChain_pick_def isErrorOf_arrow_function by simp

text \<open>
  C4, third part ("on \<open>Err{e}\<close> where \<open>pred\<close> does not match it raises exactly \<open>e\<close>"), at
  \<open>Try(() => { throw "boom" }).pick((e) => false)\<close>: the classifier does not match
  \<open>"boom"\<close>, and \<open>pick\<close> throws a \<open>TypeError\<close>, not \<open>"boom"\<close>.
\<close>

theorem pick_arrow_function_raises_TypeError:
  "TryChain_pick 0 arrow_never \<lparr>heap = [Err (VStr ''boom'')], world = ()\<rparr>
     = (Inl (new_TypeError ''Cannot convert undefined or null to object''),
        \<lparr>heap = [Err (VStr ''boom'')], world = ()\<rparr>)"
  by (simp add: arrow_never_def pick_arrow_function)

text \<open>
  And \<open>pick(Error)\<close> on a thrown \<open>42\<close>, which is no instance of \<open>Error\<close>, returns a
  chain instead of throwing \<open>42\<close>.
\<close>

lemma pick_Error_keeps_a_number:
  "TryChain_pick 0 (Error_constructor String) \<lparr>heap = [Err (VNum 42)], world = ()\<rparr>
     = (Inr 1, \<lparr>heap = [Err (VNum 42), Err (VNum 42)], world = ()\<rparr>)"
  by (simp add: TryChain_pick_def new_TryChain_def isErrorOf_Error_constructor)

subsection \<open>case\<close>

text \<open>
  What \<open>case(pred, f)\<close> does when \<open>isErrorOf\<close> gives an answer. On a chain holding \<open>Ok\<close>
  it returns the chain itself and calls nothing. On \<open>Err e\<close> with a truthy answer it
  creates a chain holding \<open>Err e\<close> (at the next free reference), calls \<open>f\<close> with it, and
  returns a new chain holding \<open>Ok\<close> of what \<open>f\<close> returned. On \<open>Err e\<close> with a falsy
  answer it returns the chain itself, without throwing, and the chain still holds
  \<open>Err e\<close>.
\<close>

lemma case_when_isErrorOf_answers:
  fixes pred :: "'w pred"
  shows "(\<forall>v. heap s ! this = Ok v \<longrightarrow> TryChain_case this pred f s = (Inr this, s)) \<and>
    (\<forall>e m s1 u s3. heap s ! this = Err e \<and> isErrorOf e pred s = (Inr m, s1) \<and> truthy m \<and>
        f (length (heap s1)) (s1\<lparr>heap := heap s1 @ [Err e]\<rparr>) = (Inr u, s3) \<longrightarrow>
       TryChain_case this pred f s = (Inr (length (heap s3)), s3\<lparr>heap := heap s3 @ [Ok u]\<rparr>)) \<and>
    (\<forall>e m s1. heap s ! this = Err e \<and> isErrorOf e pred s = (Inr m, s1) \<and> \<not> truthy m \<longrightarrow>
       TryChain_case this pred f s = (Inr this, s1) \<and>
       (this < length (heap s) \<and> allocates s s1 \<longrightarrow> heap s1 ! this = Err e))"
  by (auto simp: TryChain_case_def new_TryChain_def allocates_nth)

lemma case_DemoError:
  "TryChain_case 0 DemoError_class (\<lambda>c. returning (VNum 5)) \<lparr>heap = [Ok (VNum 1)], world = ()\<rparr>
     = (Inr 0, \<lparr>heap = [Ok (VNum 1)], world = ()\<rparr>)"
  "TryChain_case 0 DemoError_class (\<lambda>c. TryChain_done c Omitted) \<lparr>heap = [Err demo_error], world = ()\<rparr>
     = (Inl demo_error, \<lparr>heap = [Err demo_error, Err demo_error], world = ()\<rparr>)"
  "TryChain_case 0 DemoError_class (\<lambda>c. returning (VNum 5)) \<lparr>heap = [Err demo_error], world = ()\<rparr>
     = (Inr 2, \<lparr>heap = [Err demo_error, Err demo_error, Ok (VNum 5)], world = ()\<rparr>)"
  "TryChain_case 0 DemoError_class (\<lambda>c. returning (VNum 5)) \<lparr>heap = [Err (new_Error ''e'')], world = ()\<rparr>
     = (Inr 0, \<lparr>heap = [Err (new_Error ''e'')], world = ()\<rparr>)"
  by (simp_all add: TryChain_case_def new_TryChain_def TryChain_done_def isErrorOf_demo_error
        returning_def)

lemma case_arrow_function:
  "heap s ! this = Err e \<Longrightarrow>
   TryChain_case this (PFunction None call) f s
     = (Inl (new_TypeError ''Cannot convert undefined or null to object''), s)"
  unfolding TryChain_case_def isErrorOf_arrow_function by simp

text \<open>
  C5, third part ("on \<open>Err{e}\<close> where \<open>pred\<close> does not match it passes the chain through
  unchanged, without raising"), at \<open>Try(() => { throw "boom" }).case((e) => false, f)\<close>
  with \<open>f = (c) => undefined\<close>: the classifier does not match \<open>"boom"\<close>, and \<open>case\<close> throws
  a \<open>TypeError\<close>.
\<close>

theorem case_arrow_function_raises_TypeError:
  "TryChain_case 0 arrow_never handle_nothing \<lparr>heap = [Err (VStr ''boom'')], world = ()\<rparr>
     = (Inl (new_TypeError ''Cannot convert undefined or null to object''),
        \<lparr>heap = [Err (VStr ''boom'')], world = ()\<rparr>)"
  by (simp add: arrow_never_def case_arrow_function)

text \<open>
  And \<open>case(Error, f)\<close> on a thrown \<open>42\<close>, which is no instance of \<open>Error\<close>, runs the
  handler.
\<close>

lemma case_Error_handles_a_number:
  "TryChain_case 0 (Error_constructor String) (\<lambda>c. returning (VNum 5))
       \<lparr>heap = [Err (VNum 42)], world = ()\<rparr>
     = (Inr 2, \<lparr>heap = [Err (VNum 42), Err (VNum 42), Ok (VNum 5)], world = ()\<rparr>)"
  by (simp add: TryChain_case_def new_TryChain_def isErrorOf_Error_constructor returning_def)

subsection \<open>The tests of exception.test.ts\<close>

text \<open>
  \<open>Try(() => { throw x }).pick(C).done(() => 42)\<close> is \<open>42\<close> for \<open>x = new Error()\<close> and
  \<open>x = new TypeError()\<close> with \<open>C = Error\<close>, and for \<open>x = new DemoError("demo")\<close> with
  \<open>C = DemoError\<close>.
\<close>

lemma test_Try_pick_Error:
  "Try (Throw (new_Error [])) empty_state = (Inr 0, \<lparr>heap = [Err (new_Error [])], world = ()\<rparr>) \<and>
   TryChain_pick 0 (Error_constructor String) \<lparr>heap = [Err (new_Error [])], world = ()\<rparr>
     = (Inr 1, \<lparr>heap = [Err (new_Error []), Err (new_Error [])], world = ()\<rparr>) \<and>
   TryChain_done 1 (PassedFunction (\<lambda>e. returning (VNum 42)))
       \<lparr>heap = [Err (new_Error []), Err (new_Error [])], world = ()\<rparr>
     = (Inr (VNum 42), \<lparr>heap = [Err (new_Error []), Err (new_Error [])], world = ()\<rparr>)"
  by (simp add: Try_def Throw_def empty_state_def new_TryChain_def TryChain_pick_def
        TryChain_done_def isErrorOf_Error_constructor returning_def)

lemma test_Try_pick_Error_catches_TypeError:
  "TryChain_pick 0 (Error_constructor String) \<lparr>heap = [Err (new_TypeError [])], world = ()\<rparr>
     = (Inr 1, \<lparr>heap = [Err (new_TypeError []), Err (new_TypeError [])], world = ()\<rparr>)"
  by (simp add: new_TryChain_def TryChain_pick_def isErrorOf_Error_constructor)

lemma test_Try_pick_DemoError:
  "Try (Throw demo_error) empty_state = (Inr 0, \<lparr>heap = [Err demo_error], world = ()\<rparr>) \<and>
   TryChain_pick 0 DemoError_class \<lparr>heap = [Err demo_error], world = ()\<rparr>
     = (Inr 1, \<lparr>heap = [Err demo_error, Err demo_error], world = ()\<rparr>) \<and>
   TryChain_done 1 (PassedFunction (\<lambda>e. returning (VNum 42)))
       \<lparr>heap = [Err demo_error, Err demo_error], world = ()\<rparr>
     = (Inr (VNum 42), \<lparr>heap = [Err demo_error, Err demo_error], world = ()\<rparr>)"
  by (simp add: Try_def Throw_def empty_state_def new_TryChain_def TryChain_done_def
        pick_DemoError returning_def)

subsection \<open>Instances\<close>

text \<open>
  C7, as the code has it. Let the receiver exist and let the callbacks and the
  predicate only create instances. Then \<open>map\<close> and \<open>pick\<close>, when they return, return a
  new instance: a reference that was not in the store before the call and is in it
  after. \<open>case\<close> returns a new instance when the receiver holds \<open>Err e\<close> and
  \<open>isErrorOf(e, pred)\<close> answers truthy, and the receiver itself otherwise. \<open>tap\<close>
  returns the receiver itself. After each of the four, returning or throwing, the
  receiver holds the \<open>Result\<close> it held before.
\<close>

theorem TryChain_instances:
  fixes s :: "'w state"
  assumes "this < length (heap s)"
    and "\<And>x t. allocates t (snd (f x t))"
    and "\<And>x t. allocates t (snd (h x t))"
    and "\<And>x t. allocates t (snd (isErrorOf x pred t))"
  shows "(\<forall>r s1. TryChain_map this f s = (r, s1) \<longrightarrow>
            heap s1 ! this = heap s ! this \<and>
            (\<forall>c. r = Inr c \<longrightarrow> length (heap s) \<le> c \<and> c < length (heap s1) \<and> c \<noteq> this)) \<and>
         (\<forall>r s1. TryChain_pick this pred s = (r, s1) \<longrightarrow>
            heap s1 ! this = heap s ! this \<and>
            (\<forall>c. r = Inr c \<longrightarrow> length (heap s) \<le> c \<and> c < length (heap s1) \<and> c \<noteq> this)) \<and>
         (\<forall>r s1. TryChain_case this pred h s = (r, s1) \<longrightarrow>
            heap s1 ! this = heap s ! this \<and>
            (\<forall>c. r = Inr c \<longrightarrow>
               (c \<noteq> this \<longleftrightarrow> (\<exists>e m. heap s ! this = Err e \<and> fst (isErrorOf e pred s) = Inr m \<and> truthy m)) \<and>
               (c \<noteq> this \<longrightarrow> length (heap s) \<le> c \<and> c < length (heap s1)))) \<and>
         (\<forall>r s1. TryChain_tap this f s = (r, s1) \<longrightarrow>
            heap s1 ! this = heap s ! this \<and> (\<forall>c. r = Inr c \<longrightarrow> c = this))"
proof -
  have nth: "\<And>t. allocates s t \<Longrightarrow>
      heap t ! this = heap s ! this \<and> this < length (heap t) \<and> length (heap s) \<le> length (heap t)"
    using assms(1) allocates_nth allocates_length by (metis less_le_trans)
  have m: "\<forall>r s1. TryChain_map this f s = (r, s1) \<longrightarrow>
            heap s1 ! this = heap s ! this \<and>
            (\<forall>c. r = Inr c \<longrightarrow> length (heap s) \<le> c \<and> c < length (heap s1) \<and> c \<noteq> this)"
  proof (intro allI impI)
    fix r s1 assume eq: "TryChain_map this f s = (r, s1)"
    show "heap s1 ! this = heap s ! this \<and>
            (\<forall>c. r = Inr c \<longrightarrow> length (heap s) \<le> c \<and> c < length (heap s1) \<and> c \<noteq> this)"
    proof (cases "heap s ! this")
      case (Ok v)
      obtain r1 t where ft: "f v s = (r1, t)" by (cases "f v s")
      have "allocates s t" using assms(2)[of s v] ft by simp
      from nth[OF this] eq Ok ft show ?thesis
        by (cases r1) (auto simp: TryChain_map_def new_TryChain_def nth_append)
    next
      case (Err e)
      with eq assms(1) show ?thesis
        by (auto simp: TryChain_map_def new_TryChain_def nth_append)
    qed
  qed
  have p: "\<forall>r s1. TryChain_pick this pred s = (r, s1) \<longrightarrow>
            heap s1 ! this = heap s ! this \<and>
            (\<forall>c. r = Inr c \<longrightarrow> length (heap s) \<le> c \<and> c < length (heap s1) \<and> c \<noteq> this)"
  proof (intro allI impI)
    fix r s1 assume eq: "TryChain_pick this pred s = (r, s1)"
    show "heap s1 ! this = heap s ! this \<and>
            (\<forall>c. r = Inr c \<longrightarrow> length (heap s) \<le> c \<and> c < length (heap s1) \<and> c \<noteq> this)"
    proof (cases "heap s ! this")
      case (Ok v)
      with eq assms(1) show ?thesis
        by (auto simp: TryChain_pick_def new_TryChain_def nth_append)
    next
      case (Err e)
      obtain r1 t where ft: "isErrorOf e pred s = (r1, t)" by (cases "isErrorOf e pred s")
      have "allocates s t" using assms(4)[of s e] ft by simp
      from nth[OF this] eq Err ft show ?thesis
        by (cases r1) (auto simp: TryChain_pick_def new_TryChain_def nth_append split: if_splits)
    qed
  qed
  have c: "\<forall>r s1. TryChain_case this pred h s = (r, s1) \<longrightarrow>
            heap s1 ! this = heap s ! this \<and>
            (\<forall>c. r = Inr c \<longrightarrow>
               (c \<noteq> this \<longleftrightarrow> (\<exists>e m. heap s ! this = Err e \<and> fst (isErrorOf e pred s) = Inr m \<and> truthy m)) \<and>
               (c \<noteq> this \<longrightarrow> length (heap s) \<le> c \<and> c < length (heap s1)))"
  proof (intro allI impI)
    fix r s1 assume eq: "TryChain_case this pred h s = (r, s1)"
    show "heap s1 ! this = heap s ! this \<and>
            (\<forall>c. r = Inr c \<longrightarrow>
               (c \<noteq> this \<longleftrightarrow> (\<exists>e m. heap s ! this = Err e \<and> fst (isErrorOf e pred s) = Inr m \<and> truthy m)) \<and>
               (c \<noteq> this \<longrightarrow> length (heap s) \<le> c \<and> c < length (heap s1)))"
    proof (cases "heap s ! this")
      case (Ok v)
      with eq show ?thesis by (auto simp: TryChain_case_def)
    next
      case (Err e)
      obtain r1 t where ft: "isErrorOf e pred s = (r1, t)" by (cases "isErrorOf e pred s")
      have at: "allocates s t" using assms(4)[of s e] ft by simp
      show ?thesis
      proof (cases r1)
        case (Inl x)
        with nth[OF at] eq Err ft show ?thesis by (auto simp: TryChain_case_def)
      next
        case (Inr m)
        show ?thesis
        proof (cases "truthy m")
          case False
          with Inr nth[OF at] eq Err ft show ?thesis by (auto simp: TryChain_case_def)
        next
          case True
          let ?t2 = "t\<lparr>heap := heap t @ [Err e]\<rparr>"
          obtain r3 t3 where ht: "h (length (heap t)) ?t2 = (r3, t3)"
            by (cases "h (length (heap t)) ?t2")
          have "allocates t ?t2" by (simp add: allocates_def)
          moreover have "allocates ?t2 t3" using assms(3)[of ?t2 "length (heap t)"] ht by simp
          ultimately have "allocates s t3" using at allocates_trans by blast
          from nth[OF this] True Inr eq Err ft ht show ?thesis
            by (cases r3) (auto simp: TryChain_case_def new_TryChain_def nth_append)
        qed
      qed
    qed
  qed
  have t: "\<forall>r s1. TryChain_tap this f s = (r, s1) \<longrightarrow>
            heap s1 ! this = heap s ! this \<and> (\<forall>c. r = Inr c \<longrightarrow> c = this)"
  proof (intro allI impI)
    fix r s1 assume eq: "TryChain_tap this f s = (r, s1)"
    show "heap s1 ! this = heap s ! this \<and> (\<forall>c. r = Inr c \<longrightarrow> c = this)"
    proof (cases "heap s ! this")
      case (Ok v)
      with eq show ?thesis by (auto simp: TryChain_tap_def)
    next
      case (Err e)
      obtain r1 t where ft: "f e s = (r1, t)" by (cases "f e s")
      have "allocates s t" using assms(2)[of s e] ft by simp
      from nth[OF this] eq Err ft show ?thesis
        by (cases r1) (auto simp: TryChain_tap_def)
    qed
  qed
  from m p c t show ?thesis by blast
qed

text \<open>
  C7 as stated fails: \<open>tap\<close> on the instance \<open>0\<close> returns the instance \<open>0\<close>, not a
  new one.
\<close>

theorem tap_returns_receiver:
  "fst (TryChain_tap 0 report_nothing \<lparr>heap = [Err (VStr ''boom'')], world = ()\<rparr>) = Inr 0"
  by (simp add: TryChain_tap_def report_nothing_def returning_def)

text \<open>
  C7 at the receiver \<open>0\<close> holding \<open>Err\<close> of a \<open>DemoError\<close>, with \<open>pred = DemoError\<close>:
  \<open>map\<close> and \<open>pick\<close> return the new instance \<open>1\<close>, \<open>case\<close> the new instance \<open>2\<close> (the
  chain of the handler is \<open>1\<close>), \<open>tap\<close> the receiver.
\<close>

theorem TryChain_instances_witness:
  "fst (TryChain_map 0 report_nothing \<lparr>heap = [Err demo_error], world = ()\<rparr>) = Inr 1 \<and>
   fst (TryChain_pick 0 DemoError_class \<lparr>heap = [Err demo_error], world = ()\<rparr>) = Inr 1 \<and>
   fst (TryChain_case 0 DemoError_class handle_nothing \<lparr>heap = [Err demo_error], world = ()\<rparr>) = Inr 2 \<and>
   fst (TryChain_tap 0 report_nothing \<lparr>heap = [Err demo_error], world = ()\<rparr>) = Inr 0 \<and>
   heap (snd (TryChain_case 0 DemoError_class handle_nothing \<lparr>heap = [Err demo_error], world = ()\<rparr>)) ! 0
     = Err demo_error"
proof -
  let ?s = "\<lparr>heap = [Err demo_error], world = ()\<rparr>"
  let ?h = "handle_nothing"
  have 1: "0 < length (heap ?s)" by simp
  have 2: "\<And>x t. allocates t (snd (report_nothing x t))"
    by (simp add: report_nothing_def returning_def allocates_refl)
  have 3: "\<And>x t. allocates t (snd (?h x t))"
    by (simp add: handle_nothing_def returning_def allocates_refl)
  have 4: "\<And>x t. allocates t (snd (isErrorOf x DemoError_class t))"
    by (simp add: isErrorOf_DemoError_class allocates_refl)
  note T = TryChain_instances [of 0 ?s report_nothing ?h DemoError_class, OF 1 2 3 4]
  have m: "fst (TryChain_map 0 report_nothing ?s) = Inr 1"
    by (simp add: TryChain_map_def new_TryChain_def)
  have p: "fst (TryChain_pick 0 DemoError_class ?s) = Inr 1"
    by (simp add: pick_DemoError)
  have c: "fst (TryChain_case 0 DemoError_class ?h ?s) = Inr 2"
    by (simp add: TryChain_case_def new_TryChain_def isErrorOf_demo_error handle_nothing_def
          returning_def)
  have t: "fst (TryChain_tap 0 report_nothing ?s) = Inr 0"
    by (simp add: TryChain_tap_def report_nothing_def returning_def)
  have k: "heap (snd (TryChain_case 0 DemoError_class ?h ?s)) ! 0 = heap ?s ! 0"
    using T by (metis prod.collapse)
  from m p c t k show ?thesis by simp
qed

section \<open>Properties of do.ts\<close>

lemmas examples = number_fn_def plus_one_def times_two_def resolve_plus_one_def
  resolve_times_two_def resolve_it_def identity_fn_def set_called_def async_nothing_def

subsection \<open>Building chains\<close>

lemma run_steps_snoc:
  "run_steps (steps @ [(isAsync, f)]) current w =
     (case run_steps steps current w of
        (Inl x, w1) \<Rightarrow> (Inl x, w1)
      | (Inr v, w1) \<Rightarrow> f v w1)"
  by (induction steps current w rule: run_steps.induct) (auto split: prod.splits sum.splits)

lemma invoke_world: "snd (invoke x c w) = w"
  by (cases "(x, c, w)" rule: invoke.cases)
     (simp_all add: Thunk_pipe_def Thunk_pipeAwait_def Thunk_rcall_def Thunk_rcallAwait_def
        Thunk_tap_def AsyncThunk_pipe_def AsyncThunk_pipeAwait_def AsyncThunk_rcall_def
        AsyncThunk_rcallAwait_def AsyncThunk_tap_def Thunk_tapAwait_def AsyncThunk_tapAwait_def)

lemma invoke_steps: "chain_steps (fst (invoke x c w)) = chain_steps c @ [call_step x]"
  by (cases "(x, c, w)" rule: invoke.cases)
     (simp_all add: Thunk_pipe_def Thunk_pipeAwait_def Thunk_rcall_def Thunk_rcallAwait_def
        Thunk_tap_def AsyncThunk_pipe_def AsyncThunk_pipeAwait_def AsyncThunk_rcall_def
        AsyncThunk_rcallAwait_def AsyncThunk_tap_def Thunk_tapAwait_def AsyncThunk_tapAwait_def)

lemma invoke_kind: "is_Async (fst (invoke x c w)) \<longleftrightarrow> is_Async c \<or> appends_async x"
  by (cases "(x, c, w)" rule: invoke.cases)
     (simp_all add: Thunk_pipe_def Thunk_pipeAwait_def Thunk_rcall_def Thunk_rcallAwait_def
        Thunk_tap_def AsyncThunk_pipe_def AsyncThunk_pipeAwait_def AsyncThunk_rcall_def
        AsyncThunk_rcallAwait_def AsyncThunk_tap_def Thunk_tapAwait_def AsyncThunk_tapAwait_def appends_async_def)

lemma invoke_all_world: "snd (invoke_all calls c w) = w"
proof (induction calls arbitrary: c)
  case Nil
  show ?case by simp
next
  case (Cons x xs)
  obtain c1 w1 where i: "invoke x c w = (c1, w1)" by (cases "invoke x c w")
  with invoke_world[of x c w] have "w1 = w" by simp
  with i Cons.IH[of c1] show ?case by simp
qed

lemma invoke_all_steps:
  "chain_steps (fst (invoke_all calls c w)) = chain_steps c @ map call_step calls"
proof (induction calls arbitrary: c w)
  case Nil
  show ?case by simp
next
  case (Cons x xs)
  obtain c1 w1 where i: "invoke x c w = (c1, w1)" by (cases "invoke x c w")
  with invoke_steps[of x c w] have "chain_steps c1 = chain_steps c @ [call_step x]" by simp
  with i Cons.IH[of c1 w1] show ?case by simp
qed

lemma invoke_all_kind:
  "is_Async (fst (invoke_all calls c w)) \<longleftrightarrow> is_Async c \<or> list_ex appends_async calls"
proof (induction calls arbitrary: c w)
  case Nil
  show ?case by simp
next
  case (Cons x xs)
  obtain c1 w1 where i: "invoke x c w = (c1, w1)" by (cases "invoke x c w")
  with invoke_kind[of x c w] have "is_Async c1 \<longleftrightarrow> is_Async c \<or> appends_async x" by simp
  with i Cons.IH[of c1 w1] show ?case by auto
qed

lemma method_chain_world: "snd (method_chain value calls w) = w"
  by (simp add: method_chain_def Do_def invoke_all_world)

lemma method_chain_steps:
  "chain_steps (fst (method_chain value calls w))
     = (False, \<lambda>x w1. (Inr value, w1)) # map call_step calls"
  by (simp add: method_chain_def Do_def invoke_all_steps)

lemma method_chain_kind:
  "is_Async (fst (method_chain value calls w)) \<longleftrightarrow> list_ex appends_async calls"
  by (simp add: method_chain_def Do_def invoke_all_kind)

subsection \<open>Promises\<close>

text \<open>A promise is never fulfilled with a thenable.\<close>

lemma fulfilled_not_thenable:
  "settles p = Some (r, Inr x) \<longrightarrow> \<not> thenable x"
  "resolved_in t v = Some (r, Inr x) \<longrightarrow> \<not> thenable x"
  "then_called_in t a = Some (r, Inr x) \<longrightarrow> \<not> thenable x"
  by (induction p and t v and t a arbitrary: r and r and r
        rule: settles_resolved_in_then_called_in.induct)
     (auto split: option.splits sum.splits if_splits prod.splits)

lemma awaited_not_thenable:
  assumes "awaited v = Some (r, Inr x)"
  shows "\<not> thenable x"
proof (cases "\<exists>p. v = VPromise p")
  case True
  with assms fulfilled_not_thenable(1) show ?thesis by auto
next
  case False
  then have "awaited v = resolved_in 0 v" by (cases v) auto
  with assms fulfilled_not_thenable(2) show ?thesis by metis
qed

text \<open>
  What is awaited in the tests is ready: a number, and \<open>Promise.resolve\<close> of a number.
  The promise of \<open>tapAwait\<close> is not: \<open>p.then(() => value)\<close> settles a round after \<open>p\<close>.
\<close>

lemma awaited_examples:
  "awaited (VNum n) = Some (0, Inr (VNum n))"
  "awaited (Promise_resolve (VNum n)) = Some (0, Inr (VNum n))"
  "awaited (VPromise (Rejected e)) = Some (0, Inl e)"
  "awaited (VPromise (Then (Resolved VUndefined) (VNum n))) = Some (1, Inr (VNum n))"
  "awaited (VPromise (Resolved (VPromise (Resolved (VNum n))))) = Some (2, Inr (VNum n))"
  "awaited (VThenable (Calls_onFulfilled (VNum n))) = Some (1, Inr (VNum n))"
  "awaited (VPromise Never) = None"
  by simp_all

subsection \<open>The event loop\<close>

text \<open>
  A continuation that waits for a promise settling in round \<open>r\<close> is on the queue \<open>r\<close>
  rounds later, the counter then being \<open>r\<close> higher.
\<close>

lemma later_counter:
  "i + r \<le> maxCount \<Longrightarrow>
   run_jobs maxCount (2 * r + fuel)
     \<lparr>mworld = w, count = Finite i, queue = [CounterJob i, later r j], iife = p\<rparr>
   = run_jobs maxCount fuel
     \<lparr>mworld = w, count = Finite (i + r), queue = [CounterJob (i + r), j], iife = p\<rparr>"
proof (induction r arbitrary: i)
  case 0
  show ?case by simp
next
  case (Suc r)
  from Suc.prems have le: "Suc i + r \<le> maxCount" and s: "Suc i \<le> maxCount" by simp_all
  have "run_jobs maxCount (2 * Suc r + fuel)
          \<lparr>mworld = w, count = Finite i, queue = [CounterJob i, later (Suc r) j], iife = p\<rparr>
      = run_jobs maxCount (2 * r + fuel)
          \<lparr>mworld = w, count = Finite (Suc i), queue = [CounterJob (Suc i), later r j], iife = p\<rparr>"
    using s by (simp add: counter_resume_def)
  also have "\<dots> = run_jobs maxCount fuel
          \<lparr>mworld = w, count = Finite (Suc i + r), queue = [CounterJob (Suc i + r), j], iife = p\<rparr>"
    by (rule Suc.IH[OF le])
  finally show ?case by simp
qed

lemma later_plain:
  "run_jobs maxCount (r + fuel) \<lparr>mworld = w, count = c, queue = [later r j], iife = p\<rparr>
   = run_jobs maxCount fuel \<lparr>mworld = w, count = c, queue = [j], iife = p\<rparr>"
  by (induction r) simp_all

text \<open>
  With the counter running: the caller of \<open>done()\<close> is resumed one round after the
  \<open>async\<close> function has ended, and the function ends after \<open>rounds\<close> rounds. Without
  the counter the outcome is the same.
\<close>

lemma run_counter:
  assumes "accumulate steps current w = Some (res, w')"
    and "i + rounds steps current w + 1 \<le> maxCount"
  shows "run_jobs maxCount (2 * rounds steps current w + 2 + k)
           (async_body steps current
              \<lparr>mworld = w, count = Finite i, queue = [CounterJob i], iife = Pending True\<rparr>)
         = Some (Finite (i + rounds steps current w + 1), checked res, w')"
  using assms
proof (induction steps arbitrary: current w i)
  case Nil
  then show ?case by (auto simp: settle_def counter_resume_def)
next
  case (Cons st rest)
  obtain isAsync f where st: "st = (isAsync, f)" by (cases st)
  show ?case
  proof (cases "f current w")
    case (Pair r0 w1)
    show ?thesis
    proof (cases r0)
      case (Inl x)
      with Pair st Cons.prems show ?thesis by (auto simp: settle_def counter_resume_def)
    next
      case (Inr v)
      show ?thesis
      proof (cases isAsync)
        case False
        with Inr Pair st Cons.prems Cons.IH[of v w1 i] show ?thesis by simp
      next
        case True
        from True Inr Pair st Cons.prems(1) obtain r out where aw: "awaited v = Some (r, out)"
          by (cases "awaited v") auto
        let ?F = "\<lambda>n. 2 + (2 * n + k)"
        have body: "async_body (st # rest) current
              \<lparr>mworld = w, count = Finite i, queue = [CounterJob i], iife = Pending True\<rparr>
            = \<lparr>mworld = w1, count = Finite i,
                queue = [CounterJob i, later r (ResumeJob out rest)], iife = Pending True\<rparr>"
          using True Inr Pair st aw by (simp add: suspend_def)
        show ?thesis
        proof (cases out)
          case (Inl x)
          with True \<open>r0 = Inr v\<close> Pair st aw Cons.prems
          have res: "res = Inl x" "w' = w1" and rd: "rounds (st # rest) current w = Suc r"
            and le: "i + r \<le> maxCount" "Suc (i + r) \<le> maxCount" "Suc (Suc (i + r)) \<le> maxCount"
            by auto
          have fu: "2 * rounds (st # rest) current w + 2 + k = 2 * r + Suc (Suc (Suc (Suc k)))"
            unfolding rd by simp
          show ?thesis
            unfolding body fu later_counter[OF le(1)] using le res rd Inl
            by (simp add: settle_def counter_resume_def)
        next
          case (Inr u)
          with True \<open>r0 = Inr v\<close> Pair st aw Cons.prems
          have acc: "accumulate rest u w1 = Some (res, w')"
            and rd: "rounds (st # rest) current w = Suc r + rounds rest u w1"
            by auto
          with Cons.prems(2)
          have le: "i + r \<le> maxCount" "Suc (i + r) \<le> maxCount"
            and le2: "Suc (i + r) + rounds rest u w1 + 1 \<le> maxCount"
            by auto
          have fu: "2 * rounds (st # rest) current w + 2 + k
              = 2 * r + Suc (Suc (2 * rounds rest u w1 + 2 + k))"
            unfolding rd by simp
          have "run_jobs maxCount (2 * rounds (st # rest) current w + 2 + k)
                 (async_body (st # rest) current
                    \<lparr>mworld = w, count = Finite i, queue = [CounterJob i], iife = Pending True\<rparr>)
              = run_jobs maxCount (2 * rounds rest u w1 + 2 + k)
                 (async_body rest u
                    \<lparr>mworld = w1, count = Finite (Suc (i + r)), queue = [CounterJob (Suc (i + r))],
                      iife = Pending True\<rparr>)"
            unfolding body fu later_counter[OF le(1)] using le Inr
            by (simp add: counter_resume_def del: async_body.simps)
          also have "\<dots> = Some (Finite (Suc (i + r) + rounds rest u w1 + 1), checked res, w')"
            by (rule Cons.IH[OF acc le2])
          finally show ?thesis unfolding rd by simp
        qed
      qed
    qed
  qed
qed

lemma run_plain:
  assumes "accumulate steps current w = Some (res, w')"
  shows "run_jobs maxCount (rounds steps current w + 1 + k)
     (async_body steps current \<lparr>mworld = w, count = c, queue = [], iife = Pending True\<rparr>)
   = Some (c, checked res, w')"
  using assms
proof (induction steps arbitrary: current w)
  case Nil
  then show ?case by (auto simp: settle_def)
next
  case (Cons st rest)
  obtain isAsync f where st: "st = (isAsync, f)" by (cases st)
  show ?case
  proof (cases "f current w")
    case (Pair r0 w1)
    show ?thesis
    proof (cases r0)
      case (Inl x)
      with Pair st Cons.prems show ?thesis by (auto simp: settle_def)
    next
      case (Inr v)
      show ?thesis
      proof (cases isAsync)
        case False
        with Inr Pair st Cons.prems Cons.IH[of v w1] show ?thesis by simp
      next
        case True
        from True Inr Pair st Cons.prems(1) obtain r out where aw: "awaited v = Some (r, out)"
          by (cases "awaited v") auto
        have body: "async_body (st # rest) current
              \<lparr>mworld = w, count = c, queue = [], iife = Pending True\<rparr>
            = \<lparr>mworld = w1, count = c, queue = [later r (ResumeJob out rest)], iife = Pending True\<rparr>"
          using True Inr Pair st aw by (simp add: suspend_def)
        show ?thesis
        proof (cases out)
          case (Inl x)
          with True \<open>r0 = Inr v\<close> Pair st aw Cons.prems
          have res: "res = Inl x" "w' = w1" and rd: "rounds (st # rest) current w = Suc r"
            by auto
          have fu: "rounds (st # rest) current w + 1 + k = r + Suc (Suc k)"
            unfolding rd by simp
          show ?thesis
            unfolding body fu later_plain using res Inl by (simp add: settle_def)
        next
          case (Inr u)
          with True \<open>r0 = Inr v\<close> Pair st aw Cons.prems
          have acc: "accumulate rest u w1 = Some (res, w')"
            and rd: "rounds (st # rest) current w = Suc r + rounds rest u w1"
            by auto
          have fu: "rounds (st # rest) current w + 1 + k = r + Suc (rounds rest u w1 + 1 + k)"
            unfolding rd by simp
          have "run_jobs maxCount (rounds (st # rest) current w + 1 + k)
                 (async_body (st # rest) current
                    \<lparr>mworld = w, count = c, queue = [], iife = Pending True\<rparr>)
              = run_jobs maxCount (rounds rest u w1 + 1 + k)
                 (async_body rest u \<lparr>mworld = w1, count = c, queue = [], iife = Pending True\<rparr>)"
            unfolding body fu later_plain using Inr by (simp del: async_body.simps)
          also have "\<dots> = Some (c, checked res, w')"
            by (rule Cons.IH[OF acc])
          finally show ?thesis .
        qed
      qed
    qed
  qed
qed

lemma await_main_async_body:
  "await_main AsyncFunctionPromise
     (async_body steps current \<lparr>mworld = w, count = c, queue = q, iife = Pending False\<rparr>)
   = async_body steps current \<lparr>mworld = w, count = c, queue = q, iife = Pending True\<rparr>"
proof (induction steps arbitrary: current w)
  case Nil
  then show ?case by (simp add: settle_def)
next
  case (Cons st rest)
  obtain isAsync f where st: "st = (isAsync, f)" by (cases st)
  show ?case
  proof (cases "f current w")
    case (Pair r w1)
    show ?thesis
    proof (cases r)
      case (Inl x)
      with Pair st show ?thesis by (simp add: settle_def)
    next
      case (Inr v)
      with Pair st Cons.IH[of v w1] show ?thesis
        by (cases isAsync) (simp_all add: suspend_def split: option.splits)
    qed
  qed
qed

subsection \<open>The simple pipeline\<close>

lemma isSimplePipeline_iff:
  "isSimplePipeline steps \<longleftrightarrow>
     steps \<noteq> [] \<and> fst (last steps) \<and> (\<forall>s \<in> set (butlast steps). \<not> fst s)"
  by (cases "steps = []")
     (auto simp: isSimplePipeline_def last_conv_nth butlast_conv_take list_all_iff Suc_le_eq)

lemma only_last_iff:
  "list_ex id bs \<Longrightarrow>
   (bs \<noteq> [] \<and> last bs \<and> (\<forall>b \<in> set (butlast bs). \<not> b)) \<longleftrightarrow> \<not> list_ex id (butlast bs)"
  by (cases bs rule: rev_cases) (auto simp: list_ex_iff)

lemma isSimplePipeline_flags:
  "isSimplePipeline steps \<longleftrightarrow>
     map fst steps \<noteq> [] \<and> last (map fst steps) \<and> (\<forall>b \<in> set (butlast (map fst steps)). \<not> b)"
  by (auto simp: isSimplePipeline_iff last_map map_butlast[symmetric])

lemma isSimplePipeline_seed:
  assumes "list_ex id (map fst ss)"
  shows "isSimplePipeline ((False, g) # ss) \<longleftrightarrow> \<not> list_ex id (butlast (map fst ss))"
proof -
  from assms have ne: "ss \<noteq> []" by auto
  then have "isSimplePipeline ((False, g) # ss) \<longleftrightarrow>
     map fst ss \<noteq> [] \<and> last (map fst ss) \<and> (\<forall>b \<in> set (butlast (map fst ss)). \<not> b)"
    unfolding isSimplePipeline_flags by auto
  with only_last_iff[OF assms] show ?thesis by simp
qed

lemma spec_suspensions_steps:
  assumes "list_ex appends_async calls"
  shows "spec_suspensions (map appends_async calls) =
     (if isSimplePipeline ((False, g) # map call_step calls) then 1
      else length (filter fst ((False, g) # map call_step calls)) + 1)"
proof -
  have flags: "map appends_async calls = map fst (map call_step calls)"
    by (simp add: appends_async_def)
  from assms have ex: "list_ex id (map fst (map call_step calls))"
    by (auto simp: list_ex_iff appends_async_def)
  have len: "length (filter id (map fst (map call_step calls)))
     = length (filter fst (map call_step calls))"
    by (simp add: filter_map comp_def)
  show ?thesis
    unfolding flags spec_suspensions_def isSimplePipeline_seed[OF ex]
    using ex len by simp
qed

lemma spec_suspensions_sync:
  "\<not> list_ex appends_async calls \<Longrightarrow> spec_suspensions (map appends_async calls) = 0"
  by (auto simp: spec_suspensions_def list_ex_iff)

text \<open>
  On the simple path \<open>done()\<close> runs the steps as \<open>Thunk.done()\<close> does and the caller
  awaits what the last step returned: that is what the general path would have
  awaited.
\<close>

lemma simple_accumulate:
  "\<forall>s \<in> set pre. \<not> fst s \<Longrightarrow>
   accumulate (pre @ [(True, f)]) current w =
     (case run_steps (pre @ [(True, f)]) current w of
        (Inl x, w1) \<Rightarrow> Some (Inl x, w1)
      | (Inr v, w1) \<Rightarrow>
          (case awaited v of None \<Rightarrow> None | Some (r, out) \<Rightarrow> Some (out, w1)))
   \<and> rounds (pre @ [(True, f)]) current w =
     (case run_steps (pre @ [(True, f)]) current w of
        (Inl x, w1) \<Rightarrow> 0
      | (Inr v, w1) \<Rightarrow> (case awaited v of None \<Rightarrow> 0 | Some (r, out) \<Rightarrow> Suc r))"
proof (induction pre arbitrary: current w)
  case Nil
  show ?case by (auto split: prod.splits sum.splits option.splits)
next
  case (Cons st pre)
  obtain isAsync g where st: "st = (isAsync, g)" by (cases st)
  with Cons.prems have na: "\<not> isAsync" and rest: "\<forall>s \<in> set pre. \<not> fst s" by simp_all
  show ?case
  proof (cases "g current w")
    case (Pair r0 w1)
    show ?thesis
    proof (cases r0)
      case (Inl x)
      with Pair st na show ?thesis by simp
    next
      case (Inr v)
      with Pair st na Cons.IH[OF rest, of v w1] show ?thesis by simp
    qed
  qed
qed

subsection \<open>The count in general\<close>

text \<open>
  For every chain with an asynchronous step whose awaited promises all settle: the
  caller of \<open>done()\<close> reads on the counter the rounds the steps take, and one more
  unless the chain is a simple pipeline; what it gets is what the loop left, checked
  on the general path.
\<close>

lemma await_count_rounds:
  fixes calls :: "'w call list"
  assumes ex: "list_ex appends_async calls"
    and acc: "accumulate (chain_steps (fst (method_chain value calls w))) VUndefined w = Some (res, w')"
    and n: "n = rounds (chain_steps (fst (method_chain value calls w))) VUndefined w
              + (if isSimplePipeline (chain_steps (fst (method_chain value calls w))) then 0 else 1)"
    and mc: "n \<le> maxCount"
    and fu: "2 * n \<le> fuel"
  shows "await_count maxCount fuel value calls w = Some (Finite n, checked res, w')"
proof -
  let ?g = "\<lambda>(x::val) (w1::'w). (Inr value :: val + val, w1)"
  let ?steps = "(False, ?g) # map call_step calls"
  obtain c w0 where mch: "method_chain value calls w = (c, w0)" by (cases "method_chain value calls w")
  with method_chain_world[of "value" calls w] have w0: "w0 = w" by simp
  from mch method_chain_steps[of "value" calls w] have steps: "chain_steps c = ?steps" by simp
  from mch method_chain_kind[of "value" calls w] ex have "is_Async c" by simp
  then obtain a where Async: "c = Async a" by (cases c) auto
  from Async steps have asteps: "AsyncThunk_steps a = ?steps" by simp
  from acc mch steps have acc': "accumulate ?steps VUndefined w = Some (res, w')" by simp
  from n mch steps have n': "n = rounds ?steps VUndefined w + (if isSimplePipeline ?steps then 0 else 1)"
    by simp
  show ?thesis
  proof (cases "isSimplePipeline ?steps")
    case True
    then have ne: "?steps \<noteq> []" and la: "fst (last ?steps)"
      and bl: "\<forall>s \<in> set (butlast ?steps). \<not> fst s"
      unfolding isSimplePipeline_iff by blast+
    obtain f where lf: "last ?steps = (True, f)" using la by (cases "last ?steps") auto
    have dec: "?steps = butlast ?steps @ [(True, f)]"
      using append_butlast_last_id[OF ne] lf by simp
    note sa = simple_accumulate[OF bl, of f VUndefined w, folded dec]
    have done_eq: "AsyncThunk_done a \<lparr>mworld = w, count = Finite 0, queue = [CounterJob 0], iife = Pending False\<rparr>
        = (case run_steps ?steps VUndefined w of
             (Inl x, w1) \<Rightarrow> (Inl x, \<lparr>mworld = w1, count = Finite 0, queue = [CounterJob 0], iife = Pending False\<rparr>)
           | (Inr current, w1) \<Rightarrow> (Inr (Value current), \<lparr>mworld = w1, count = Finite 0, queue = [CounterJob 0], iife = Pending False\<rparr>))"
      unfolding AsyncThunk_done_def asteps using True
      by (simp split: prod.splits sum.splits del: run_steps.simps)
    show ?thesis
    proof (cases "run_steps ?steps VUndefined w")
      case (Pair r0 w1)
      show ?thesis
      proof (cases r0)
        case (Inl x)
        with Pair sa acc' n' True have "res = Inl x" "w' = w1" "n = 0"
          by (simp_all del: run_steps.simps accumulate.simps rounds.simps)
        with Inl Pair Async mch w0 done_eq show ?thesis
          by (simp add: await_count_def new_MicrotickCouter_def del: run_steps.simps)
      next
        case (Inr v)
        with Pair sa acc' obtain r where aw: "awaited v = Some (r, res)" and w1: "w' = w1"
          by (cases "awaited v") (auto simp del: run_steps.simps accumulate.simps rounds.simps)
        with Inr Pair sa n' True have nr: "n = Suc r"
          by (simp del: run_steps.simps accumulate.simps rounds.simps)
        have ck: "checked res = res"
          using awaited_not_thenable[of v r] aw by (cases res) auto
        define k where "k = fuel - 2 * n"
        with fu nr have fuel: "fuel = 2 * r + Suc (Suc k)" by simp
        from mc nr have le: "0 + r \<le> maxCount" "Suc r \<le> maxCount" by simp_all
        have "await_count maxCount fuel value calls w
            = run_jobs maxCount fuel
                \<lparr>mworld = w1, count = Finite 0, queue = [CounterJob 0, later r (MainJob res)],
                  iife = Pending False\<rparr>"
          using Inr Pair Async mch w0 done_eq aw
          by (simp add: await_count_def new_MicrotickCouter_def suspend_def del: run_steps.simps)
        also have "\<dots> = Some (Finite (Suc r), res, w1)"
          unfolding fuel later_counter[OF le(1)] using le(2) by (simp add: counter_resume_def)
        finally show ?thesis using nr ck w1 by simp
      qed
    qed
  next
    case False
    let ?n = "rounds ?steps VUndefined w"
    from False n' have sp: "n = ?n + 1" by simp
    define k where "k = fuel - (2 * ?n + 2)"
    with fu sp have fuel: "fuel = 2 * ?n + 2 + k" by simp
    from mc sp have le: "0 + ?n + 1 \<le> maxCount" by simp
    have "await_count maxCount fuel value calls w
      = run_jobs maxCount fuel (async_body ?steps VUndefined
            \<lparr>mworld = w, count = Finite 0, queue = [CounterJob 0], iife = Pending True\<rparr>)"
      using Async mch w0 asteps False
      by (simp add: await_count_def new_MicrotickCouter_def AsyncThunk_done_def
            await_main_async_body del: async_body.simps await_main.simps)
    also have "\<dots> = Some (Finite (0 + ?n + 1), checked res, w')"
      unfolding fuel by (rule run_counter[OF acc' le])
    finally show ?thesis using sp by simp
  qed
qed

subsection \<open>The counts of the specification\<close>

lemma all_succeed_rounds:
  "all_succeed steps current w \<Longrightarrow>
   rounds steps current w = length (filter fst steps) \<and>
   (\<exists>v w1. accumulate steps current w = Some (Inr v, w1))"
  by (induction steps current w rule: all_succeed.induct)
     (auto split: prod.splits sum.splits if_splits option.splits)

lemma await_count_ticks:
  fixes calls :: "'w call list"
  assumes ok: "all_succeed (chain_steps (fst (method_chain value calls w))) VUndefined w"
    and mc: "spec_suspensions (map appends_async calls) \<le> maxCount"
    and fu: "2 * spec_suspensions (map appends_async calls) \<le> fuel"
  shows "\<exists>r w1. await_count maxCount fuel value calls w
           = Some (Finite (spec_suspensions (map appends_async calls)), r, w1)"
proof (cases "list_ex appends_async calls")
  case False
  obtain c w0 where mch: "method_chain value calls w = (c, w0)" by (cases "method_chain value calls w")
  from mch method_chain_kind[of "value" calls w] False obtain t where "c = Sync t"
    by (cases c) auto
  with mch False show ?thesis
    by (cases "Thunk_done t w0")
       (simp add: await_count_def new_MicrotickCouter_def spec_suspensions_sync)
next
  case True
  let ?g = "\<lambda>(x::val) (w1::'w). (Inr value :: val + val, w1)"
  let ?steps = "chain_steps (fst (method_chain value calls w))"
  have steps: "?steps = (False, ?g) # map call_step calls" by (rule method_chain_steps)
  from all_succeed_rounds[OF ok] obtain v w1
    where rd: "rounds ?steps VUndefined w = length (filter fst ?steps)"
      and acc: "accumulate ?steps VUndefined w = Some (Inr v, w1)" by blast
  have one: "isSimplePipeline ?steps \<Longrightarrow> length (filter fst ?steps) = 1"
  proof -
    assume "isSimplePipeline ?steps"
    then have ne: "?steps \<noteq> []" and la: "fst (last ?steps)"
      and bl: "\<forall>s \<in> set (butlast ?steps). \<not> fst s"
      unfolding isSimplePipeline_iff by blast+
    have "filter fst ?steps = filter fst (butlast ?steps) @ filter fst [last ?steps]"
      using append_butlast_last_id[OF ne] by (metis filter_append)
    moreover have "filter fst (butlast ?steps) = []" using bl by (simp add: filter_empty_conv)
    ultimately show ?thesis using la by simp
  qed
  have n: "spec_suspensions (map appends_async calls)
      = rounds ?steps VUndefined w + (if isSimplePipeline ?steps then 0 else 1)"
    unfolding rd using spec_suspensions_steps[OF True, of ?g] one steps by auto
  from await_count_rounds[OF True acc n mc fu] show ?thesis by blast
qed

subsection \<open>The usage error\<close>

lemma accumulate_snoc:
  "accumulate (steps @ [(False, f)]) current w =
     (case accumulate steps current w of
        None \<Rightarrow> None
      | Some (Inl x, w1) \<Rightarrow> Some (Inl x, w1)
      | Some (Inr v, w1) \<Rightarrow> Some (f v w1))"
  by (induction steps current w rule: accumulate.induct)
     (auto split: prod.splits sum.splits option.splits)

lemma rounds_snoc: "rounds (steps @ [(False, f)]) current w = rounds steps current w"
  by (induction steps current w rule: rounds.induct)
     (auto split: prod.splits sum.splits option.splits)

lemma await_result_general:
  assumes "method_chain value calls w = (Async a, w0)"
    and "\<not> isSimplePipeline (AsyncThunk_steps a)"
    and "accumulate (AsyncThunk_steps a) VUndefined w = Some (res, w')"
    and "rounds (AsyncThunk_steps a) VUndefined w < fuel"
  shows "await_result fuel value calls w = Some (outcome (checked res), w')"
proof -
  let ?steps = "AsyncThunk_steps a"
  let ?n = "rounds ?steps VUndefined w"
  from assms(1) method_chain_world[of "value" calls w] have w0: "w0 = w" by simp
  define k where "k = fuel - (?n + 1)"
  with assms(4) have fuel: "fuel = ?n + 1 + k" by simp
  have run: "run_jobs 0 fuel (async_body ?steps VUndefined
          \<lparr>mworld = w, count = Finite 0, queue = [], iife = Pending True\<rparr>)
       = Some (Finite 0, checked res, w')"
    unfolding fuel by (rule run_plain[OF assms(3)])
  have "await_result fuel value calls w
     = (case run_jobs 0 fuel (async_body ?steps VUndefined
          \<lparr>mworld = w, count = Finite 0, queue = [], iife = Pending True\<rparr>) of
          None \<Rightarrow> None
        | Some (c, r, w2) \<Rightarrow> Some (outcome r, w2))"
    using assms(1,2) w0
    by (simp add: await_result_def AsyncThunk_done_def await_main_async_body
          del: async_body.simps await_main.simps)
  then show ?thesis unfolding run by simp
qed

text \<open>
  C2, as the code has it. Take a chain with an asynchronous step, extended by a last
  call that appends a synchronous step (\<open>pipe\<close>, \<open>rcall\<close>, \<open>tap\<close>). If the steps before
  the last run through, every awaited promise being fulfilled, and the last step then
  returns a thenable (a value whose \<open>then\<close> is a function), \<open>done()\<close> returns a promise
  and that promise is rejected with the usage error
  "AsyncThunk: pipe callback returned a promise; try pipeAwait instead".
\<close>

theorem final_promise_is_usage_error:
  fixes calls :: "'w call list"
  assumes "list_ex appends_async calls"
    and "\<not> appends_async c"
    and "accumulate (chain_steps (fst (method_chain value calls w))) VUndefined w = Some (Inr v, w1)"
    and "snd (call_step c) v w1 = (Inr p, w2)"
    and "thenable p"
    and "rounds (chain_steps (fst (method_chain value calls w))) VUndefined w < fuel"
  shows "await_result fuel value (calls @ [c]) w = Some (Rejected_with usage_error, w2)"
proof -
  let ?g = "\<lambda>(x::val) (w1::'w). (Inr value :: val + val, w1)"
  let ?pre = "(False, ?g) # map call_step calls"
  obtain f where cs: "call_step c = (False, f)"
    using assms(2) by (cases "call_step c") (auto simp: appends_async_def)
  obtain ch w0 where mch: "method_chain value (calls @ [c]) w = (ch, w0)"
    by (cases "method_chain value (calls @ [c]) w")
  from mch method_chain_steps[of "value" "calls @ [c]" w] cs
  have steps: "chain_steps ch = ?pre @ [(False, f)]" by simp
  from mch method_chain_kind[of "value" "calls @ [c]" w] assms(1)
  have "is_Async ch" by simp
  then obtain a where a: "ch = Async a" by (cases ch) auto
  with steps have asteps: "AsyncThunk_steps a = ?pre @ [(False, f)]" by simp
  have ns: "\<not> isSimplePipeline (AsyncThunk_steps a)"
    unfolding asteps isSimplePipeline_iff by simp
  from assms(3) method_chain_steps[of "value" calls w]
  have "accumulate ?pre VUndefined w = Some (Inr v, w1)" by simp
  with assms(4) cs have acc: "accumulate (?pre @ [(False, f)]) VUndefined w = Some (Inr p, w2)"
    by (simp only: accumulate_snoc) simp
  from assms(6) method_chain_steps[of "value" calls w]
  have "rounds (?pre @ [(False, f)]) VUndefined w < fuel"
    by (simp only: rounds_snoc)
  with asteps have fu: "rounds (AsyncThunk_steps a) VUndefined w < fuel" by simp
  from acc asteps have acc': "accumulate (AsyncThunk_steps a) VUndefined w = Some (Inr p, w2)"
    by simp
  from await_result_general[OF mch[unfolded a] ns acc' fu] assms(5)
  show ?thesis by simp
qed

text \<open>
  C2 at the test "Fails on unprecedented Promise collapse":
  \<open>Do(42).pipeAwait((it) => Promise.resolve(it + 1)).pipe((it) => Promise.resolve(it * 2)).done()\<close>.
\<close>

theorem final_promise_is_usage_error_witness:
  "await_result 5 (VNum 42) ([PipeAwait resolve_plus_one] @ [Pipe resolve_times_two]) ()
     = Some (Rejected_with usage_error, ())"
proof -
  have 1: "list_ex appends_async [PipeAwait resolve_plus_one :: unit call]"
    by (simp add: appends_async_def)
  have 2: "\<not> appends_async (Pipe resolve_times_two :: unit call)"
    by (simp add: appends_async_def)
  have 3: "accumulate (chain_steps (fst (method_chain (VNum 42) [PipeAwait resolve_plus_one] ()))) VUndefined ()
     = Some (Inr (VNum 43), ())"
    by (simp add: method_chain_def Do_def Thunk_pipeAwait_def examples)
  have 4: "snd (call_step (Pipe resolve_times_two)) (VNum 43) ()
     = (Inr (VPromise (Resolved (VNum 86))), ())"
    by (simp add: examples)
  have 5: "thenable (VPromise (Resolved (VNum 86)))" by simp
  have 6: "rounds (chain_steps (fst (method_chain (VNum 42) [PipeAwait resolve_plus_one] ()))) VUndefined () < 5"
    by (simp add: method_chain_def Do_def Thunk_pipeAwait_def examples)
  from final_promise_is_usage_error[OF 1 2 3 4 5 6] show ?thesis .
qed

text \<open>
  C2 as stated fails. In
  \<open>Do(42).pipeAwait((it) => Promise.resolve(it + 1)).pipe((it) => Promise.resolve(it * 2)).pipeAwait((it) => it).done()\<close>
  the step appended with \<open>pipe\<close> returns a promise, a thenable, and the promise of
  \<open>done()\<close> is fulfilled with \<open>86\<close>.
\<close>

theorem interior_promise_goes_undetected:
  "resolve_times_two (VNum 43) () = (Inr (VPromise (Resolved (VNum 86))), ()) \<and>
   thenable (VPromise (Resolved (VNum 86))) \<and>
   await_result 5 (VNum 42) [PipeAwait resolve_plus_one, Pipe resolve_times_two, PipeAwait identity_fn] ()
     = Some (Fulfilled_with (VNum 86), ())"
  by (simp add: await_result_def method_chain_def Do_def Thunk_pipeAwait_def AsyncThunk_pipe_def
        AsyncThunk_pipeAwait_def AsyncThunk_done_def isSimplePipeline_def settle_def suspend_def
        examples eval_nat_numeral)

text \<open>
  The check sees thenables of every kind at the end of the loop: an object with a
  method \<open>then\<close> of its own, and an object that inherits \<open>then\<close> from \<open>Promise.prototype\<close>.
  A rejection of the promise of \<open>done()\<close> is told from a throw of \<open>done()\<close>: on the simple
  path a throwing step makes \<open>done()\<close> throw.
\<close>

lemma usage_error_examples:
  "await_result 5 (VNum 42) [PipeAwait resolve_plus_one, Pipe (\<lambda>it. Pair (Inr (VThenable Calls_neither)))] ()
     = Some (Rejected_with usage_error, ())"
  "await_result 5 (VNum 42) [PipeAwait resolve_plus_one, Pipe (\<lambda>it. Pair (Inr (VObject Promise_prototype [])))] ()
     = Some (Rejected_with usage_error, ())"
  "await_result 5 (VNum 42) [PipeAwait (\<lambda>it. Pair (Inl (VStr ''boom'')))] ()
     = Some (Threw (VStr ''boom''), ())"
  "await_result 5 (VNum 42) [PipeAwait (\<lambda>it. Pair (Inr (VPromise (Rejected (VStr ''boom'')))))] ()
     = Some (Rejected_with (VStr ''boom''), ())"
  "await_result 5 (VNum 42) [PipeAwait resolve_plus_one, Pipe (\<lambda>it. Pair (Inl (VStr ''boom'')))] ()
     = Some (Rejected_with (VStr ''boom''), ())"
  by (simp_all add: await_result_def method_chain_def Do_def Thunk_pipeAwait_def AsyncThunk_pipe_def
        AsyncThunk_pipeAwait_def AsyncThunk_done_def isSimplePipeline_def settle_def suspend_def
        examples eval_nat_numeral Promise_prototype_def)

subsection \<open>Suspension counts\<close>

lemma spec_suspensions_all_sync: "spec_suspensions (replicate n False) = 0"
  by (simp add: spec_suspensions_def list_ex_iff)

lemma spec_suspensions_trailing: "spec_suspensions (replicate n False @ [True]) = 1"
  by (simp add: spec_suspensions_def list_ex_iff butlast_append)

lemma spec_suspensions_table:
  "spec_suspensions [False, False, True] = 1"
  "spec_suspensions [False, True, False] = 2"
  "spec_suspensions [False, True, True] = 3"
  "spec_suspensions [True, False, False] = 2"
  "spec_suspensions [True, False, True] = 3"
  "spec_suspensions [True, True, False] = 3"
  "spec_suspensions [True, True, True] = 4"
  by (simp_all add: spec_suspensions_def)

text \<open>
  C1, as the code has it. Take any chain \<open>Do(value).m1(...). ... .mk(...)\<close> in which
  every step returns and what an asynchronous step returns is ready when it is awaited
  (a value that is no thenable, or a promise that is fulfilled already), a counter
  that runs long enough, and fuel for the jobs. The caller of \<open>done()\<close> reads on the
  counter the count of the specification: \<open>0\<close> for a chain of synchronous steps of any
  length (a \<open>Thunk\<close>, whose \<open>done()\<close> is not awaited), \<open>1\<close> when only the final step is
  asynchronous, and otherwise one per asynchronous step and one more; for three steps
  that is \<open>1, 2, 3, 2, 3, 3, 4\<close> in the order sync-sync-async, sync-async-sync,
  sync-async-async, async-sync-sync, async-sync-async, async-async-sync,
  async-async-async.
\<close>

theorem suspension_counts:
  fixes calls :: "'w call list"
  assumes ok: "all_succeed (chain_steps (fst (method_chain value calls w))) VUndefined w"
    and mc: "spec_suspensions (map appends_async calls) \<le> maxCount"
    and fu: "2 * spec_suspensions (map appends_async calls) \<le> fuel"
  shows "(\<exists>r w1. await_count maxCount fuel value calls w
           = Some (Finite (spec_suspensions (map appends_async calls)), r, w1)) \<and>
     spec_suspensions (replicate n False) = 0 \<and>
     spec_suspensions (replicate n False @ [True]) = 1 \<and>
     spec_suspensions [False, False, True] = 1 \<and>
     spec_suspensions [False, True, False] = 2 \<and>
     spec_suspensions [False, True, True] = 3 \<and>
     spec_suspensions [True, False, False] = 2 \<and>
     spec_suspensions [True, False, True] = 3 \<and>
     spec_suspensions [True, True, False] = 3 \<and>
     spec_suspensions [True, True, True] = 4"
  using await_count_ticks[OF ok mc fu] spec_suspensions_all_sync spec_suspensions_trailing
    spec_suspensions_table by simp

lemmas chain_api = method_chain_def Do_def Thunk_pipe_def Thunk_pipeAwait_def Thunk_rcall_def
  Thunk_rcallAwait_def Thunk_tap_def Thunk_tapAwait_def AsyncThunk_pipe_def
  AsyncThunk_pipeAwait_def AsyncThunk_rcall_def AsyncThunk_rcallAwait_def AsyncThunk_tap_def
  AsyncThunk_tapAwait_def

text \<open>
  C1 at the test "AsyncThunk await count: case 5".
\<close>

theorem suspension_counts_witness:
  "\<exists>r w1. await_count 10 20 (VNum 0) [PipeAwait resolve_plus_one, Pipe plus_one, PipeAwait resolve_plus_one] ()
      = Some (Finite 3, r, w1)"
proof -
  let ?calls = "[PipeAwait resolve_plus_one, Pipe plus_one, PipeAwait resolve_plus_one] :: unit call list"
  have sp: "spec_suspensions (map appends_async ?calls) = 3"
    by (simp add: appends_async_def spec_suspensions_def)
  have 1: "all_succeed (chain_steps (fst (method_chain (VNum 0) ?calls ()))) VUndefined ()"
    by (simp add: chain_api examples)
  have 2: "spec_suspensions (map appends_async ?calls) \<le> 10" unfolding sp by simp
  have 3: "2 * spec_suspensions (map appends_async ?calls) \<le> 20" unfolding sp by simp
  from suspension_counts[OF 1 2 3] sp show ?thesis by simp
qed

lemmas machine_defs = await_count_def new_MicrotickCouter_def AsyncThunk_done_def Thunk_done_def
  isSimplePipeline_def settle_def suspend_def counter_resume_def eval_nat_numeral

text \<open>
  C1 as stated fails. \<open>Do(0).tapAwait(async (it) => {}).done()\<close> is a chain whose only
  asynchronous step is the final step, for which the count of the specification is
  \<open>1\<close>; the caller reads \<open>2\<close>. The step returns \<open>f(value).then(() => value)\<close>, a promise
  that is pending when it is awaited and is fulfilled one round later.
\<close>

theorem tapAwait_takes_two_ticks:
  "spec_suspensions (map appends_async [TapAwait async_nothing :: unit call]) = 1 \<and>
   await_count 10 20 (VNum 0) [TapAwait async_nothing] () = Some (Finite 2, Inr (VNum 0), ())"
  by (simp add: chain_api machine_defs examples appends_async_def spec_suspensions_def
        tapAwait_body_def)

text \<open>
  More of the kind: the example of the documentation of \<open>tapAwait\<close>,
  \<open>Do(42).tapAwait(async (it) => console.log(it)).pipe((it) => it + 1).done()\<close>, where
  the count of the specification is \<open>2\<close>; a step that returns a promise resolved with
  a promise, as an \<open>async\<close> function that returns a promise does; and a promise that
  never settles, on which the caller is never resumed.
\<close>

lemma pending_promise_counts:
  "await_count 10 20 (VNum 42) [TapAwait async_nothing, Pipe plus_one] ()
     = Some (Finite 3, Inr (VNum 43), ())"
  "await_count 10 20 (VNum 0) [PipeAwait (\<lambda>it. Pair (Inr (VPromise (Resolved (VPromise (Resolved it))))))] ()
     = Some (Finite 3, Inr (VNum 0), ())"
  by (simp_all add: chain_api machine_defs examples tapAwait_body_def)

text \<open>
  A step that throws, or an awaited promise that is rejected, ends the run early:
  \<open>Do(0).pipeAwait(() => { throw "boom" }).done()\<close> throws before anything is awaited,
  and \<open>Do(0).pipeAwait(() => Promise.reject("boom")).pipeAwait((it) => Promise.resolve(it + 1)).done()\<close>
  is rejected after the first \<open>await\<close>, where the count of the specification is \<open>3\<close>.
\<close>

lemma failing_step_counts:
  "await_count 10 20 (VNum 0) [PipeAwait (\<lambda>it. Pair (Inl (VStr ''boom'')))] ()
     = Some (Finite 0, Inl (VStr ''boom''), ())"
  "await_count 10 20 (VNum 0)
       [PipeAwait (\<lambda>it. Pair (Inr (VPromise (Rejected (VStr ''boom''))))), PipeAwait resolve_plus_one] ()
     = Some (Finite 2, Inl (VStr ''boom''), ())"
  by (simp_all add: chain_api machine_defs examples)

lemma pending_for_ever:
  "await_count maxCount fuel (VNum 0) [PipeAwait (\<lambda>it. Pair (Inr (VPromise Never)))] () = None"
proof -
  have run: "\<And>i. run_jobs maxCount fuel
        \<lparr>mworld = (), count = Finite i, queue = [CounterJob i], iife = Pending False\<rparr> = None"
  proof (induction fuel)
    case 0
    show ?case by simp
  next
    case (Suc fuel)
    show ?case
    proof (cases "Suc i \<le> maxCount")
      case True
      with Suc.IH[of "Suc i"] show ?thesis by (simp add: counter_resume_def)
    next
      case False
      then show ?thesis by (cases fuel) (simp_all add: counter_resume_def)
    qed
  qed
  show ?thesis
    unfolding await_count_def new_MicrotickCouter_def
    by (simp add: chain_api AsyncThunk_done_def isSimplePipeline_def suspend_def run)
qed

text \<open>
  The eight tests "AsyncThunk await count", with \<open>maxCount = 10\<close>, evaluated on the machine:
  the counts and the result \<open>3\<close> are those the tests assert.
\<close>

lemma await_count_case_0:
  "await_count 10 20 (VNum 0) [Pipe plus_one, Pipe plus_one, Pipe plus_one] ()
     = Some (Finite 0, Inr (VNum 3), ())"
  by (simp add: chain_api machine_defs examples)

lemma await_count_case_1:
  "await_count 10 20 (VNum 0) [Pipe plus_one, Pipe plus_one, PipeAwait resolve_plus_one] ()
     = Some (Finite 1, Inr (VNum 3), ())"
  by (simp add: chain_api machine_defs examples)

lemma await_count_case_2:
  "await_count 10 20 (VNum 0) [Pipe plus_one, PipeAwait resolve_plus_one, Pipe plus_one] ()
     = Some (Finite 2, Inr (VNum 3), ())"
  by (simp add: chain_api machine_defs examples)

lemma await_count_case_3:
  "await_count 10 20 (VNum 0) [Pipe plus_one, PipeAwait resolve_plus_one, PipeAwait resolve_plus_one] ()
     = Some (Finite 3, Inr (VNum 3), ())"
  by (simp add: chain_api machine_defs examples)

lemma await_count_case_4:
  "await_count 10 20 (VNum 0) [PipeAwait resolve_plus_one, Pipe plus_one, Pipe plus_one] ()
     = Some (Finite 2, Inr (VNum 3), ())"
  by (simp add: chain_api machine_defs examples)

lemma await_count_case_5:
  "await_count 10 20 (VNum 0) [PipeAwait resolve_plus_one, Pipe plus_one, PipeAwait resolve_plus_one] ()
     = Some (Finite 3, Inr (VNum 3), ())"
  by (simp add: chain_api machine_defs examples)

lemma await_count_case_6:
  "await_count 10 20 (VNum 0) [PipeAwait resolve_plus_one, PipeAwait resolve_plus_one, Pipe plus_one] ()
     = Some (Finite 3, Inr (VNum 3), ())"
  by (simp add: chain_api machine_defs examples)

lemma await_count_case_7:
  "await_count 10 20 (VNum 0) [PipeAwait resolve_plus_one, PipeAwait resolve_plus_one, PipeAwait resolve_plus_one] ()
     = Some (Finite 4, Inr (VNum 3), ())"
  by (simp add: chain_api machine_defs examples)

text \<open>
  The test "Asynchronous pipe":
  \<open>Do(42).pipeAwait((it) => Promise.resolve(it)).pipe((it) => it + 1).pipeAwait((it) => Promise.resolve(it * 2))\<close>
  resolves to \<open>86\<close>.
\<close>

lemma test_Asynchronous_pipe:
  "await_result 5 (VNum 42) [PipeAwait resolve_it, Pipe plus_one, PipeAwait resolve_times_two] ()
     = Some (Fulfilled_with (VNum 86), ())"
  by (simp add: await_result_def chain_api AsyncThunk_done_def isSimplePipeline_def settle_def
        suspend_def examples eval_nat_numeral)

subsection \<open>Deferred execution and Thunk.done\<close>

text \<open>
  C8. \<open>Do\<close>, each chain method on either class, and so every method chain, leave the
  world as they found it, whatever the step bodies would do to it: the bodies, the one
  \<open>Do\<close> makes for the seed included, are stored as the steps of the chain and not called.
\<close>

theorem building_runs_no_step:
  "snd (Do value w) = w \<and>
   snd (invoke x c w) = w \<and>
   snd (method_chain value calls w) = w \<and>
   chain_steps (fst (method_chain value calls w))
     = (False, \<lambda>x w1. (Inr value, w1)) # map call_step calls"
  by (simp add: Do_def invoke_world method_chain_world method_chain_steps)

text \<open>
  The test "Pipe does not execute until done() is called": after building, \<open>called\<close> is
  still false; \<open>done()\<close> is what sets it.
\<close>

lemma pipe_does_not_execute_until_done:
  "method_chain (VNum 42) [Pipe set_called] False
     = (Sync (Thunk [(False, \<lambda>x w1. (Inr (VNum 42), w1)), (False, set_called)]), False) \<and>
   Thunk_done (Thunk [(False, \<lambda>x w1. (Inr (VNum 42), w1)), (False, set_called)]) False
     = (Inr (VNum 42), True)"
  by (simp add: chain_api Thunk_done_def set_called_def)

text \<open>
  C9. \<open>Thunk.done()\<close> hands \<open>undefined\<close> to the first step and the world and the value
  each step leaves to the next: running a chain extended by one step is running the
  chain and then that step on its result. \<open>Do(value).done()\<close> is \<open>value\<close>. The result is
  there when \<open>done()\<close> returns: for a chain of synchronous calls the caller has it with
  the counter at \<open>0\<close> and no job of the queue run (fuel \<open>0\<close>).
  \<open>Do(42).pipe((it) => it + 1).pipe((it) => it * 2).done()\<close> is \<open>86\<close>.
\<close>

theorem Thunk_done_in_append_order:
  fixes calls :: "'w call list"
  shows
  "Thunk_done (Thunk ((isAsync, f) # rest)) w =
     (case f VUndefined w of
        (Inl x, w1) \<Rightarrow> (Inl x, w1)
      | (Inr v, w1) \<Rightarrow> run_steps rest v w1) \<and>
   Thunk_done (Thunk (steps @ [(isAsync, f)])) w =
     (case Thunk_done (Thunk steps) w of
        (Inl x, w1) \<Rightarrow> (Inl x, w1)
      | (Inr v, w1) \<Rightarrow> f v w1) \<and>
   Thunk_done (fst (Do seed w)) w = (Inr seed, w) \<and>
   (\<not> list_ex appends_async calls \<longrightarrow>
      await_count maxCount 0 seed calls w
        = Some (Finite 0, run_steps (map call_step calls) seed w)) \<and>
   await_count maxCount 0 (VNum 42) [Pipe plus_one, Pipe times_two] w
     = Some (Finite 0, Inr (VNum 86), w)"
proof -
  have a: "\<not> list_ex appends_async calls \<longrightarrow>
      await_count maxCount 0 seed calls w
        = Some (Finite 0, run_steps (map call_step calls) seed w)"
  proof
    assume na: "\<not> list_ex appends_async calls"
    obtain c w0 where mch: "method_chain seed calls w = (c, w0)" by (cases "method_chain seed calls w")
    with method_chain_world[of seed calls w] have w0: "w0 = w" by simp
    from mch method_chain_kind[of seed calls w] na obtain t where c: "c = Sync t"
      by (cases c) auto
    with mch method_chain_steps[of seed calls w]
    have "Thunk_steps t = (False, \<lambda>x w1. (Inr seed, w1)) # map call_step calls" by simp
    with mch c w0 show "await_count maxCount 0 seed calls w
        = Some (Finite 0, run_steps (map call_step calls) seed w)"
      by (cases "run_steps (map call_step calls) seed w")
         (simp add: await_count_def Thunk_done_def new_MicrotickCouter_def)
  qed
  have b: "await_count maxCount 0 (VNum 42) [Pipe plus_one, Pipe times_two] w
     = Some (Finite 0, Inr (VNum 86), w)"
    by (simp add: chain_api machine_defs examples)
  from a b show ?thesis
    by (simp add: Thunk_done_def run_steps_snoc Do_def)
qed

text \<open>
  C9 at \<open>Do(42).pipe((it) => it + 1).tap(...).pipe((it) => it * 2)\<close>, whose \<open>tap\<close> sets
  \<open>called\<close>.
\<close>

theorem Thunk_done_in_append_order_witness:
  "await_count 10 0 (VNum 42) [Pipe plus_one, Tap set_called, Pipe times_two] False
     = Some (Finite 0, Inr (VNum 86), True)"
proof -
  let ?calls = "[Pipe plus_one, Tap set_called, Pipe times_two]"
  have 1: "\<not> list_ex appends_async ?calls" by (simp add: appends_async_def)
  have 2: "run_steps (map call_step ?calls) (VNum 42) False = (Inr (VNum 86), True)"
    by (simp add: tap_body_def examples)
  from Thunk_done_in_append_order[where calls="?calls" and maxCount=10 and seed="VNum 42" and w=False] 1 2
  show ?thesis by simp
qed

end
